theory Spec2Isabelle
  imports Complex_Main "HOL-Library.Word" "HOL-Library.Multiset"
begin

section \<open>Tunables and machine types (bruh2.c, lines 22-31)\<close>

text \<open>
  The model follows \<^verbatim>\<open>bruh2.c\<close>.  \<^verbatim>\<open>unsigned long long\<close> and \<^verbatim>\<open>unsigned long\<close>
  (LP64 Linux) are 64-bit words, so \<open>+\<close> and \<open>-\<close> wrap around as in C.  A C \<^verbatim>\<open>double\<close> is
  modelled by the real number it stands for: rounding is not modelled.  Fixed-size C arrays
  whose every access is guarded by the source's loop conditions are functions from the
  index.
\<close>

type_synonym u64 = "64 word"

definition MAX_CORES :: nat where "MAX_CORES = 128"
definition MAX_PROCS :: nat where "MAX_PROCS = 2048"
definition HIST_W :: int where "HIST_W = 120"
definition MAX_PRIORITY_PROCS :: nat where "MAX_PRIORITY_PROCS = 10"

text \<open>C's \<^verbatim>\<open>%\<close> on \<^verbatim>\<open>int\<close>: the quotient is truncated towards zero.\<close>

definition c_rem :: "int \<Rightarrow> int \<Rightarrow> int" where
  "c_rem a b = a - b * (sgn a * sgn b * (\<bar>a\<bar> div \<bar>b\<bar>))"

section \<open>CPU sampling and history (bruh2.c, lines 277-360)\<close>

text \<open>One parsed line of \<^verbatim>\<open>/proc/stat\<close>: the eight tick fields that \<^verbatim>\<open>fscanf\<close> reads.\<close>

record cpu_ticks =
  t_user :: u64
  t_nice :: u64
  t_system :: u64
  t_idle :: u64
  t_iow :: u64
  t_irq :: u64
  t_sirq :: u64
  t_steal :: u64

definition zero_ticks :: cpu_ticks where
  "zero_ticks = \<lparr>t_user = 0, t_nice = 0, t_system = 0, t_idle = 0,
                 t_iow = 0, t_irq = 0, t_sirq = 0, t_steal = 0\<rparr>"

text \<open>\<^verbatim>\<open>CpuSnap\<close>: \<^verbatim>\<open>total\<close>, \<^verbatim>\<open>core[MAX_CORES]\<close>, \<^verbatim>\<open>ncores\<close>.\<close>

record CpuSnap =
  total :: real
  core :: "nat \<Rightarrow> real"
  ncores :: int

text \<open>
  The sampler's state: the global \<^verbatim>\<open>cpu\<close>, \<^verbatim>\<open>hist_cpu[MAX_CORES][HIST_W]\<close> and \<^verbatim>\<open>hpos\<close>,
  and the statics of \<^verbatim>\<open>cpu_sample\<close> (the eight arrays \<^verbatim>\<open>pu, pn, ps, pi, piow, pirq, psirq,
  psteal\<close> as one array of tuples, and \<^verbatim>\<open>initialized\<close>).
\<close>

record cpu_state =
  cpu :: CpuSnap
  hist_cpu :: "nat \<Rightarrow> int \<Rightarrow> real"
  hpos :: int
  prev_ticks :: "nat \<Rightarrow> cpu_ticks"
  initialized :: bool

text \<open>C zero-initialises statics and globals.\<close>

definition cpu_init :: cpu_state where
  "cpu_init = \<lparr>cpu = \<lparr>total = 0, core = (\<lambda>_. 0), ncores = 0\<rparr>,
               hist_cpu = (\<lambda>_ _. 0), hpos = 0,
               prev_ticks = (\<lambda>_. zero_ticks), initialized = False\<rparr>"

text \<open>The clamping of \<^verbatim>\<open>push_hist\<close> (lines 289-293).\<close>

definition clamp01 :: "real \<Rightarrow> real" where
  "clamp01 usage0 =
     (let usage1 = (if usage0 < 0 then 0 else usage0)
      in if usage1 > 1 then 1 else usage1)"

text \<open>The loop of \<^verbatim>\<open>push_hist\<close>: \<^verbatim>\<open>for (i = 0; i < cpu.ncores && i < MAX_CORES; i++)\<close>.\<close>

function push_loop :: "CpuSnap \<Rightarrow> int \<Rightarrow> nat \<Rightarrow> (nat \<Rightarrow> int \<Rightarrow> real) \<Rightarrow> (nat \<Rightarrow> int \<Rightarrow> real)" where
  "push_loop c pos i h =
     (if int i < ncores c \<and> i < MAX_CORES
      then push_loop c pos (Suc i) (h(i := (h i)(pos := clamp01 (core c i))))
      else h)"
  by pat_completeness auto
termination
  by (relation "measure (\<lambda>(c, pos, i, h). MAX_CORES - i)") auto

declare push_loop.simps [simp del]

definition push_hist :: "cpu_state \<Rightarrow> cpu_state" where
  "push_hist s =
     s\<lparr>hist_cpu := push_loop (cpu s) (hpos s) 0 (hist_cpu s),
       hpos := c_rem (hpos s + 1) HIST_W\<rparr>"

text \<open>\<^verbatim>\<open>strncmp(id, "cpu", 3) != 0\<close> is false exactly when the label starts with "cpu".\<close>

definition cpu_label :: "string \<Rightarrow> bool" where
  "cpu_label ident = (take 3 ident = ''cpu'')"

definition ticks_total :: "cpu_ticks \<Rightarrow> u64" where
  "ticks_total t = t_user t + t_nice t + t_system t + t_idle t
                    + t_iow t + t_irq t + t_sirq t + t_steal t"

text \<open>Lines 320-325: \<^verbatim>\<open>tot\<close>, \<^verbatim>\<open>pt\<close>, \<^verbatim>\<open>dt\<close>, \<^verbatim>\<open>di\<close> and \<^verbatim>\<open>use\<close>.\<close>

definition cpu_use :: "cpu_ticks \<Rightarrow> cpu_ticks \<Rightarrow> real" where
  "cpu_use p t =
     (let tot = ticks_total t;
          pt = ticks_total p;
          dt = tot - pt;
          di = t_idle t - t_idle p
      in if dt > 0 then 1 - real (unat di) / real (unat dt) else 0)"

text \<open>Lines 327-339: where the value of the line with index \<open>idx\<close> is stored.\<close>

definition store_use :: "bool \<Rightarrow> nat \<Rightarrow> real \<Rightarrow> CpuSnap \<Rightarrow> CpuSnap" where
  "store_use ini idx use c =
     (if ini then
        (if idx = 0 then c\<lparr>total := use\<rparr>
         else if idx - 1 < MAX_CORES then c\<lparr>core := (core c)(idx - 1 := use)\<rparr>
         else c)
      else
        (if idx = 0 then c\<lparr>total := 0\<rparr>
         else if idx - 1 < MAX_CORES then c\<lparr>core := (core c)(idx - 1 := 0)\<rparr>
         else c))"

text \<open>
  The \<^verbatim>\<open>while (idx <= MAX_CORES)\<close> loop.  The input is the sequence of records that
  successive \<^verbatim>\<open>fscanf\<close> calls convert in full (nine items: a label and eight numbers);
  the end of the list is the first call that converts fewer than nine items.
\<close>

fun sample_loop :: "bool \<Rightarrow> (string \<times> cpu_ticks) list \<Rightarrow> nat \<Rightarrow> CpuSnap \<Rightarrow> (nat \<Rightarrow> cpu_ticks)
    \<Rightarrow> nat \<times> CpuSnap \<times> (nat \<Rightarrow> cpu_ticks)" where
  "sample_loop ini [] idx c pv = (idx, c, pv)"
| "sample_loop ini ((ident, t) # rest) idx c pv =
     (if idx \<le> MAX_CORES then
        (if \<not> cpu_label ident then (idx, c, pv)
         else sample_loop ini rest (Suc idx)
                (store_use ini idx (cpu_use (pv idx) t) c) (pv(idx := t)))
      else (idx, c, pv))"

text \<open>
  \<^verbatim>\<open>cpu_sample\<close>.  \<open>None\<close> is a failed \<^verbatim>\<open>fopen\<close>; \<open>ncpu\<close> is the global \<^verbatim>\<open>NCPU\<close>.
\<close>

definition cpu_sample :: "int \<Rightarrow> (string \<times> cpu_ticks) list option \<Rightarrow> cpu_state \<Rightarrow> cpu_state" where
  "cpu_sample ncpu f s =
     (case f of
        None \<Rightarrow> s
      | Some lines \<Rightarrow>
          (case sample_loop (initialized s) lines 0 (cpu s) (prev_ticks s) of
             (idx, c, pv) \<Rightarrow>
               let n0 = int idx - 1;
                   n1 = (if n0 \<le> 0 then 1 else n0);
                   n2 = (if n1 > ncpu then ncpu else n1)
               in push_hist (s\<lparr>cpu := c\<lparr>ncores := n2\<rparr>, prev_ticks := pv,
                                initialized := True\<rparr>)))"

text \<open>The value the sampler holds for the line with index \<open>k\<close> of \<^verbatim>\<open>/proc/stat\<close>.\<close>

definition emit_snap :: "CpuSnap \<Rightarrow> nat \<Rightarrow> real" where
  "emit_snap c k = (if k = 0 then total c else core c (k - 1))"

definition emitted :: "cpu_state \<Rightarrow> nat \<Rightarrow> real" where
  "emitted s k = (if k = 0 then total (cpu s) else core (cpu s) (k - 1))"

text \<open>A sequence of sampling ticks.\<close>

fun cpu_run :: "int \<Rightarrow> (string \<times> cpu_ticks) list option list \<Rightarrow> cpu_state \<Rightarrow> cpu_state" where
  "cpu_run ncpu [] s = s"
| "cpu_run ncpu (f # fs) s = cpu_run ncpu fs (cpu_sample ncpu f s)"

text \<open>One line \<^verbatim>\<open>label u n s idle iow irq sirq steal\<close>.\<close>

definition stat_line :: "string \<Rightarrow> u64 \<Rightarrow> u64 \<Rightarrow> u64 \<Rightarrow> u64 \<Rightarrow> u64 \<Rightarrow> u64 \<Rightarrow> u64 \<Rightarrow> u64
    \<Rightarrow> string \<times> cpu_ticks" where
  "stat_line l u n s i w q sq stl =
     (l, \<lparr>t_user = u, t_nice = n, t_system = s, t_idle = i,
          t_iow = w, t_irq = q, t_sirq = sq, t_steal = stl\<rparr>)"

section \<open>The process table (bruh2.c, lines 430-618)\<close>

text \<open>\<^verbatim>\<open>PInfo\<close>.  \<^verbatim>\<open>pid_t\<close> is an \<^verbatim>\<open>int\<close>, \<^verbatim>\<open>uid_t\<close> an \<^verbatim>\<open>unsigned int\<close>.\<close>

record PInfo =
  pid :: int
  uid :: "32 word"
  comm :: string
  ut :: u64
  st :: u64
  cpu_pct :: real
  rss_kb :: u64
  nicev :: int
  running :: bool
  suspended_by_manager :: bool

text \<open>
  What the program does to the outside: the \<^verbatim>\<open>kill\<close> and \<^verbatim>\<open>usleep\<close> calls, in order.
  Whether a \<^verbatim>\<open>kill\<close> call returns 0 is decided by the environment: \<open>env n\<close> is the answer to
  the call made when \<open>n\<close> effects have already happened, so every sequence of answers is
  covered.
\<close>

datatype signal = SIGTERM | SIGKILL | SIGSTOP | SIGCONT

datatype effect = Kill int signal | Usleep nat

type_synonym kill_env = "nat \<Rightarrow> bool"

text \<open>
  The globals \<^verbatim>\<open>procs\<close>/\<^verbatim>\<open>nprocs\<close>, \<^verbatim>\<open>priority_procs\<close>/\<^verbatim>\<open>num_priority_procs\<close> and
  \<^verbatim>\<open>auto_manage_enabled\<close>, the statics \<^verbatim>\<open>prev\<close>/\<^verbatim>\<open>prevn\<close> and \<^verbatim>\<open>prev_time_ms\<close> of
  \<^verbatim>\<open>scan_processes\<close>, and the effects so far.  An array with its count is a list.
\<close>

record mon_state =
  procs :: "PInfo list"
  prev :: "PInfo list"
  prev_time_ms :: int
  priority_procs :: "string list"
  auto_manage_enabled :: bool
  effects :: "effect list"

definition mon_init :: mon_state where
  "mon_init = \<lparr>procs = [], prev = [], prev_time_ms = 0, priority_procs = [],
               auto_manage_enabled = False, effects = []\<rparr>"

text \<open>\<^verbatim>\<open>is_pid_dir\<close>: every character is a digit.\<close>

definition isdigit :: "char \<Rightarrow> bool" where
  "isdigit ch = (48 \<le> (of_char ch :: nat) \<and> (of_char ch :: nat) \<le> 57)"

fun is_pid_dir :: "string \<Rightarrow> bool" where
  "is_pid_dir [] = True"
| "is_pid_dir (ch # cs) = (if \<not> isdigit ch then False else is_pid_dir cs)"

text \<open>
  \<^verbatim>\<open>atoi\<close> on a string of digits (the only strings it is called on).  Kernel PIDs are far
  below \<open>2 ^ 31\<close>; larger values are not wrapped.
\<close>

definition atoi :: "string \<Rightarrow> int" where
  "atoi cs = foldl (\<lambda>a ch. 10 * a + (int (of_char ch) - 48)) 0 cs"

text \<open>
  One directory entry of \<^verbatim>\<open>/proc\<close> with what the three readers return for it:
  \<open>None\<close> is the return value \<open>-1\<close>.  \<^verbatim>\<open>read_stat\<close> delivers \<^verbatim>\<open>ut\<close>, \<^verbatim>\<open>st\<close>, \<^verbatim>\<open>nicev\<close> and
  \<^verbatim>\<open>running\<close> (a stat line of the kernel has all of the fields 3, 14, 15 and 19);
  \<^verbatim>\<open>read_status\<close> delivers \<^verbatim>\<open>uid\<close> and \<^verbatim>\<open>rss_kb\<close>.
\<close>

record proc_entry =
  d_name :: string
  r_comm :: "string option"
  r_stat :: "(u64 \<times> u64 \<times> int \<times> bool) option"
  r_status :: "(32 word \<times> u64) option"

text \<open>Lines 596-609: the search of \<^verbatim>\<open>prev\<close> stops at the first record with the PID.\<close>

fun find_prev :: "PInfo list \<Rightarrow> int \<Rightarrow> PInfo option" where
  "find_prev [] p = None"
| "find_prev (q # qs) p = (if pid q = p then Some q else find_prev qs p)"

text \<open>
  Lines 598-605.  \<open>tps\<close> is \<^verbatim>\<open>sysconf(_SC_CLK_TCK)\<close>, \<open>td\<close> is \<^verbatim>\<open>time_diff_ms\<close>.  The model
  agrees with the C division only for \<open>tps \<noteq> 0\<close>.
\<close>

definition proc_cpu_pct :: "int \<Rightarrow> int \<Rightarrow> PInfo \<Rightarrow> u64 \<Rightarrow> u64 \<Rightarrow> real" where
  "proc_cpu_pct tps td q u s =
     (let dut = (if u > ut q then u - ut q else 0);
          dst = (if s > st q then s - st q else 0);
          cpu_time_ms = (real (unat (dut + dst)) * 1000) / real_of_int tps
      in if td > 0 then cpu_time_ms * 100 / real_of_int td else 0)"

text \<open>
  The body of the \<^verbatim>\<open>readdir\<close> loop for one entry: \<open>None\<close> is \<^verbatim>\<open>continue\<close> (the slot is
  reused), \<open>Some p\<close> is the record stored before \<^verbatim>\<open>nprocs++\<close>.  The slot was zeroed by
  \<^verbatim>\<open>memset\<close> and no skipped entry reaches \<^verbatim>\<open>read_status\<close>, so \<^verbatim>\<open>uid\<close> and \<^verbatim>\<open>rss_kb\<close> are 0
  when \<^verbatim>\<open>read_status\<close> fails.
\<close>

definition scan_entry :: "int \<Rightarrow> int \<Rightarrow> PInfo list \<Rightarrow> proc_entry \<Rightarrow> PInfo option" where
  "scan_entry tps td pv e =
     (if \<not> is_pid_dir (d_name e) then None
      else case r_comm e of
        None \<Rightarrow> None
      | Some cm \<Rightarrow>
          (case r_stat e of
             None \<Rightarrow> None
           | Some (u, s, nv, rn) \<Rightarrow>
               let (ui, rss) = (case r_status e of None \<Rightarrow> (0, 0) | Some x \<Rightarrow> x);
                   p = \<lparr>pid = atoi (d_name e), uid = ui, comm = cm, ut = u, st = s,
                        cpu_pct = 0, rss_kb = rss, nicev = nv, running = rn,
                        suspended_by_manager = False\<rparr>
               in Some (case find_prev pv (pid p) of
                          None \<Rightarrow> p
                        | Some q \<Rightarrow>
                            p\<lparr>cpu_pct := proc_cpu_pct tps td q u s,
                              suspended_by_manager := suspended_by_manager q\<rparr>)))"

text \<open>\<^verbatim>\<open>while ((e = readdir(d)) && nprocs < MAX_PROCS)\<close>; \<open>acc\<close> is \<^verbatim>\<open>procs[0..nprocs)\<close>.\<close>

fun scan_loop :: "int \<Rightarrow> int \<Rightarrow> PInfo list \<Rightarrow> proc_entry list \<Rightarrow> PInfo list \<Rightarrow> PInfo list" where
  "scan_loop tps td pv [] acc = acc"
| "scan_loop tps td pv (e # es) acc =
     (if length acc < MAX_PROCS then
        (case scan_entry tps td pv e of
           None \<Rightarrow> scan_loop tps td pv es acc
         | Some p \<Rightarrow> scan_loop tps td pv es (acc @ [p]))
      else acc)"

text \<open>
  \<^verbatim>\<open>scan_processes\<close>.  \<open>now\<close> is \<^verbatim>\<open>now_ms()\<close>; \<open>None\<close> is a failed \<^verbatim>\<open>opendir\<close>, which
  leaves an empty table and the statics untouched.
\<close>

definition scan_processes :: "int \<Rightarrow> int \<Rightarrow> proc_entry list option \<Rightarrow> mon_state \<Rightarrow> mon_state" where
  "scan_processes tps now d s =
     (let time_diff_ms = (if prev_time_ms s > 0 then now - prev_time_ms s else 1500)
      in case d of
           None \<Rightarrow> s\<lparr>procs := []\<rparr>
         | Some es \<Rightarrow>
             let ps = scan_loop tps time_diff_ms (prev s) es []
             in s\<lparr>procs := ps, prev := ps, prev_time_ms := now\<rparr>)"

section \<open>The resource manager (bruh2.c, lines 620-745)\<close>

text \<open>\<^verbatim>\<open>strstr(haystack, needle) != NULL\<close>.\<close>

fun starts_with :: "string \<Rightarrow> string \<Rightarrow> bool" where
  "starts_with hs [] = True"
| "starts_with [] (n # ns) = False"
| "starts_with (h # hs) (n # ns) = (h = n \<and> starts_with hs ns)"

fun strstr :: "string \<Rightarrow> string \<Rightarrow> bool" where
  "strstr [] needle = (needle = [])"
| "strstr (h # hs) needle = (starts_with (h # hs) needle \<or> strstr hs needle)"

fun is_priority_proc :: "string list \<Rightarrow> string \<Rightarrow> bool" where
  "is_priority_proc [] cm = False"
| "is_priority_proc (n # ns) cm = (if strstr cm n then True else is_priority_proc ns cm)"

definition critical :: "string list" where
  "critical =
    [''systemd'', ''init'', ''kernel'', ''kthread'', ''ksoftirq'', ''kworker'', ''Xorg'',
     ''X'', ''wayland'', ''sway'', ''gnome-shell'', ''kwin'', ''mutter'', ''plasmashell'',
     ''xfwm4'', ''openbox'', ''i3'', ''dwm'', ''awesome'', ''gdm'', ''sddm'', ''lightdm'',
     ''login'', ''getty'', ''pulseaudio'', ''pipewire'', ''wireplumber'', ''alsa'',
     ''NetworkManager'', ''wpa_supplicant'', ''dhclient'', ''dhcpcd'', ''dbus'',
     ''dbus-daemon'', ''systemd-'', ''udevd'', ''upowerd'', ''polkitd'', ''rtkit'',
     ''accounts-daemon'', ''udisksd'', ''bluetoothd'', ''cupsd'', ''avahi'', ''ssh'',
     ''sshd'', ''cron'', ''crond'', ''atd'', ''rsyslogd'', ''syslog'', ''journald'',
     ''dockerd'', ''containerd'', ''kubelet'', ''libvirtd'', ''virtlogd'', ''qemu'',
     ''xfce4-session'', ''mate-session'', ''cinnamon-session'', ''lxsession'',
     ''lxqt-session'', ''gnome-session'', ''kde-session'']"

fun match_first :: "string list \<Rightarrow> string \<Rightarrow> bool" where
  "match_first [] cm = False"
| "match_first (n # ns) cm = (if strstr cm n then True else match_first ns cm)"

definition is_system_critical :: "string \<Rightarrow> bool" where
  "is_system_critical cm = match_first critical cm"

text \<open>Lines 708-714: is a priority process running?\<close>

fun priority_running :: "string list \<Rightarrow> PInfo list \<Rightarrow> bool" where
  "priority_running pri [] = False"
| "priority_running pri (p # ps) =
     (if is_priority_proc pri (comm p) \<and> running p then True else priority_running pri ps)"

text \<open>Lines 720-734: the body of the second loop for one record.\<close>

definition manage_one :: "kill_env \<Rightarrow> string list \<Rightarrow> PInfo \<Rightarrow> effect list \<Rightarrow> PInfo \<times> effect list" where
  "manage_one env pri p efs =
     (if is_priority_proc pri (comm p) then (p, efs)
      else if is_system_critical (comm p) then (p, efs)
      else if uid p = 0 then (p, efs)
      else if (cpu_pct p > 10 \<or> rss_kb p > 500000) \<and> running p \<and> \<not> suspended_by_manager p
      then (if env (length efs) then p\<lparr>suspended_by_manager := True\<rparr> else p,
            efs @ [Kill (pid p) SIGSTOP])
      else (p, efs))"

fun manage_loop :: "kill_env \<Rightarrow> string list \<Rightarrow> PInfo list \<Rightarrow> effect list \<Rightarrow> PInfo list \<times> effect list" where
  "manage_loop env pri [] efs = ([], efs)"
| "manage_loop env pri (p # ps) efs =
     (case manage_one env pri p efs of
        (p', efs') \<Rightarrow>
          (case manage_loop env pri ps efs' of (ps', efs'') \<Rightarrow> (p' # ps', efs'')))"

definition manage_resources :: "kill_env \<Rightarrow> mon_state \<Rightarrow> mon_state" where
  "manage_resources env s =
     (if \<not> auto_manage_enabled s then s
      else if \<not> priority_running (priority_procs s) (procs s) then s
      else case manage_loop env (priority_procs s) (procs s) (effects s) of
             (ps, efs) \<Rightarrow> s\<lparr>procs := ps, effects := efs\<rparr>)"

text \<open>\<^verbatim>\<open>resume_suspended\<close>: the result of \<^verbatim>\<open>kill\<close> is not looked at.\<close>

fun resume_loop :: "PInfo list \<Rightarrow> effect list \<Rightarrow> PInfo list \<times> effect list" where
  "resume_loop [] efs = ([], efs)"
| "resume_loop (p # ps) efs =
     (if suspended_by_manager p then
        (case resume_loop ps (efs @ [Kill (pid p) SIGCONT]) of
           (ps', efs') \<Rightarrow> (p\<lparr>suspended_by_manager := False\<rparr> # ps', efs'))
      else
        (case resume_loop ps efs of (ps', efs') \<Rightarrow> (p # ps', efs')))"

definition resume_suspended :: "mon_state \<Rightarrow> mon_state" where
  "resume_suspended s =
     (case resume_loop (procs s) (effects s) of
        (ps, efs) \<Rightarrow> s\<lparr>procs := ps, effects := efs\<rparr>)"

text \<open>The count shown by the resource manager page (lines 990-994).\<close>

definition suspended_count :: "mon_state \<Rightarrow> nat" where
  "suspended_count s = length (filter suspended_by_manager (procs s))"

section \<open>Actions (bruh2.c, lines 1564-1580)\<close>

definition act_kill :: "kill_env \<Rightarrow> int \<Rightarrow> mon_state \<Rightarrow> mon_state" where
  "act_kill env p s =
     (if env (length (effects s))
      then s\<lparr>effects := effects s @ [Kill p SIGTERM]\<rparr>
      else s\<lparr>effects := effects s @ [Kill p SIGTERM] @ [Usleep 200000] @ [Kill p SIGKILL]\<rparr>)"

definition act_stopcont :: "nat \<Rightarrow> mon_state \<Rightarrow> mon_state" where
  "act_stopcont i s =
     (let p = procs s ! i
      in if running p
         then s\<lparr>procs := (procs s)[i := p\<lparr>running := False\<rparr>],
                effects := effects s @ [Kill (pid p) SIGSTOP]\<rparr>
         else s\<lparr>procs := (procs s)[i := p\<lparr>running := True\<rparr>],
                effects := effects s @ [Kill (pid p) SIGCONT]\<rparr>)"

section \<open>The main loop (bruh2.c, lines 1615-1773)\<close>

text \<open>
  The steps of \<^verbatim>\<open>main\<close> that touch the process table, the priority list, the flag or
  send signals.  The page and the selection are not part of the state: every step is
  allowed at every moment, which includes every order the pages allow.
  \<^item> \<open>Tick_proc\<close>: the process timer is due (lines 1633-1643).
  \<^item> \<open>Scan_only\<close>: the scan before the loop (line 1623) and on entering the process page
    (lines 1692-1695).
  \<^item> \<open>Key_D\<close>, \<open>Key_T\<close>, \<open>Key_R\<close>: the keys of the resource manager page.
  \<^item> \<open>Key_A\<close>, \<open>Key_K\<close>, \<open>Key_S\<close>: the keys of the process page, with \<^verbatim>\<open>proc_sel\<close>.
  \<^item> \<open>Draw_procs\<close>: \<^verbatim>\<open>qsort\<close> in \<^verbatim>\<open>draw_procs\<close> reorders \<^verbatim>\<open>procs\<close>; the step carries the
    order it produces, which is a permutation of the table.
\<close>

datatype event =
    Tick_proc int int "proc_entry list option"
  | Scan_only int int "proc_entry list option"
  | Key_D
  | Key_T
  | Key_R
  | Key_A nat
  | Key_K nat
  | Key_S nat
  | Draw_procs "PInfo list"

definition key_T :: "mon_state \<Rightarrow> mon_state" where
  "key_T s =
     (let s1 = s\<lparr>auto_manage_enabled := \<not> auto_manage_enabled s\<rparr>
      in if \<not> auto_manage_enabled s1 then resume_suspended s1 else s1)"

definition key_A :: "nat \<Rightarrow> mon_state \<Rightarrow> mon_state" where
  "key_A sel s =
     (if length (procs s) > 0 \<and> sel < length (procs s)
         \<and> length (priority_procs s) < MAX_PRIORITY_PROCS
      then (if comm (procs s ! sel) \<in> set (priority_procs s) then s
            else s\<lparr>priority_procs := priority_procs s @ [take 63 (comm (procs s ! sel))]\<rparr>)
      else s)"

fun step :: "kill_env \<Rightarrow> event \<Rightarrow> mon_state \<Rightarrow> mon_state" where
  "step env (Tick_proc tps now d) s =
     (let s1 = scan_processes tps now d s
      in if auto_manage_enabled s1 then manage_resources env s1 else s1)"
| "step env (Scan_only tps now d) s = scan_processes tps now d s"
| "step env Key_D s =
     (if length (priority_procs s) > 0
      then s\<lparr>priority_procs := butlast (priority_procs s)\<rparr> else s)"
| "step env Key_T s = key_T s"
| "step env Key_R s = resume_suspended s"
| "step env (Key_A sel) s = key_A sel s"
| "step env (Key_K sel) s =
     (if length (procs s) > 0 \<and> sel < length (procs s)
      then act_kill env (pid (procs s ! sel)) s else s)"
| "step env (Key_S sel) s =
     (if length (procs s) > 0 \<and> sel < length (procs s) then act_stopcont sel s else s)"
| "step env (Draw_procs ps) s = (if mset ps = mset (procs s) then s\<lparr>procs := ps\<rparr> else s)"

fun run :: "kill_env \<Rightarrow> event list \<Rightarrow> mon_state \<Rightarrow> mon_state" where
  "run env [] s = s"
| "run env (ev # evs) s = run env evs (step env ev s)"

section \<open>Notions used in the statements\<close>

text \<open>
  The specification's formulas, the invariants, and concrete inputs.  The specification
  speaks about counters as integers without a width: \<open>ticks_sum_nat\<close>,
  \<open>spec_utilization\<close>, \<open>spec_cpu_percent\<close> and \<open>stop_candidate\<close> follow its words, and the
  theorems below compare them with the code.
\<close>

definition ticks_sum_nat :: "cpu_ticks \<Rightarrow> nat" where
  "ticks_sum_nat t = unat (t_user t) + unat (t_nice t) + unat (t_system t) + unat (t_idle t)
                    + unat (t_iow t) + unat (t_irq t) + unat (t_sirq t) + unat (t_steal t)"

definition spec_utilization :: "cpu_ticks \<Rightarrow> cpu_ticks \<Rightarrow> real" where
  "spec_utilization p t =
     (let totalDelta = int (ticks_sum_nat t) - int (ticks_sum_nat p);
          idleDelta = int (unat (t_idle t)) - int (unat (t_idle p))
      in if totalDelta > 0 then 1 - real_of_int idleDelta / real_of_int totalDelta else 0)"

text \<open>The number of sampling ticks in a sequence that open \<^verbatim>\<open>/proc/stat\<close>.\<close>

fun ticks_done :: "'a option list \<Rightarrow> nat" where
  "ticks_done [] = 0"
| "ticks_done (None # fs) = ticks_done fs"
| "ticks_done (Some x # fs) = Suc (ticks_done fs)"

text \<open>The invariant of the history rings and their cursor.\<close>

definition hist_ok :: "cpu_state \<Rightarrow> bool" where
  "hist_ok s = ((\<forall>i j. 0 \<le> hist_cpu s i j \<and> hist_cpu s i j \<le> 1) \<and> 0 \<le> hpos s \<and> hpos s < HIST_W)"

text \<open>Two readings of a machine with one core, used as concrete inputs.\<close>

definition tick_a :: "(string \<times> cpu_ticks) list" where
  "tick_a = [stat_line ''cpu'' 100 0 100 800 0 0 0 0, stat_line ''cpu0'' 100 0 100 800 0 0 0 0]"

definition tick_b :: "(string \<times> cpu_ticks) list" where
  "tick_b = [stat_line ''cpu'' 150 0 120 850 0 0 0 0, stat_line ''cpu0'' 150 0 120 850 0 0 0 0]"

text \<open>The Process Scanner's rate in the specification's words (4.3, step 3).\<close>

definition spec_cpu_percent :: "int \<Rightarrow> int \<Rightarrow> nat \<Rightarrow> nat \<Rightarrow> nat \<Rightarrow> nat \<Rightarrow> real" where
  "spec_cpu_percent tps elapsedMs utime0 stime0 utime1 stime1 =
     (let du = max 0 (int utime1 - int utime0);
          ds = max 0 (int stime1 - int stime0);
          cpuTimeMs = real_of_int (du + ds) * 1000 / real_of_int tps
      in cpuTimeMs * 100 / real_of_int elapsedMs)"

text \<open>What a scan stores in a record, relative to the snapshot \<open>pv\<close>.\<close>

definition scanned :: "int \<Rightarrow> int \<Rightarrow> PInfo list \<Rightarrow> PInfo \<Rightarrow> bool" where
  "scanned tps td pv p =
     (case find_prev pv (pid p) of
        None \<Rightarrow> cpu_pct p = 0 \<and> \<not> suspended_by_manager p
      | Some q \<Rightarrow> cpu_pct p = proc_cpu_pct tps td q (ut p) (st p)
                 \<and> suspended_by_manager p = suspended_by_manager q)"

text \<open>Concrete \<^verbatim>\<open>/proc\<close> entries and the records a scan makes of them.\<close>

definition e_ffmpeg :: proc_entry where
  "e_ffmpeg = \<lparr>d_name = ''7'', r_comm = Some ''ffmpeg'', r_stat = Some (100, 10, 0, True),
               r_status = Some (1000, 20000)\<rparr>"

definition e_chrome :: "u64 \<Rightarrow> u64 \<Rightarrow> bool \<Rightarrow> proc_entry" where
  "e_chrome u s r = \<lparr>d_name = ''42'', r_comm = Some ''chrome'', r_stat = Some (u, s, 0, r),
                     r_status = Some (1000, 600000)\<rparr>"

definition p_ffmpeg :: PInfo where
  "p_ffmpeg = \<lparr>pid = 7, uid = 1000, comm = ''ffmpeg'', ut = 100, st = 10, cpu_pct = 0,
               rss_kb = 20000, nicev = 0, running = True, suspended_by_manager = False\<rparr>"

definition p_chrome :: "u64 \<Rightarrow> u64 \<Rightarrow> real \<Rightarrow> bool \<Rightarrow> bool \<Rightarrow> PInfo" where
  "p_chrome u s c r f = \<lparr>pid = 42, uid = 1000, comm = ''chrome'', ut = u, st = s, cpu_pct = c,
               rss_kb = 600000, nicev = 0, running = r, suspended_by_manager = f\<rparr>"

definition scan1 :: mon_state where
  "scan1 = scan_processes 100 5000 (Some [e_ffmpeg, e_chrome 1000 200 True]) mon_init"

definition e_vlc :: proc_entry where
  "e_vlc = \<lparr>d_name = ''99'', r_comm = Some ''vlc'', r_stat = Some (5000, 100, 0, True),
            r_status = Some (1000, 1000)\<rparr>"

definition p_vlc :: PInfo where
  "p_vlc = \<lparr>pid = 99, uid = 1000, comm = ''vlc'', ut = 5000, st = 100, cpu_pct = 0,
            rss_kb = 1000, nicev = 0, running = True, suspended_by_manager = False\<rparr>"

text \<open>The processes the policy stops, in the specification's words (4.4, step 2).\<close>

definition stop_candidate :: "string list \<Rightarrow> PInfo \<Rightarrow> bool" where
  "stop_candidate pri p =
     (\<not> is_priority_proc pri (comm p) \<and> \<not> is_system_critical (comm p) \<and> uid p \<noteq> 0
      \<and> running p \<and> \<not> suspended_by_manager p
      \<and> (cpu_pct p > 10 \<or> rss_kb p > 500000))"

text \<open>
  The invariant of the flags: the snapshot holds no set flag, and no record with UID 0 or
  a system-critical name has the flag set.
\<close>

definition flags_ok :: "mon_state \<Rightarrow> bool" where
  "flags_ok s =
     ((\<forall>p\<in>set (prev s). \<not> suspended_by_manager p)
      \<and> (\<forall>p\<in>set (procs s). suspended_by_manager p \<longrightarrow> uid p \<noteq> 0 \<and> \<not> is_system_critical (comm p)))"

text \<open>A table for the policy: a root process and a system-critical one, both busy.\<close>

definition p_root :: PInfo where
  "p_root = \<lparr>pid = 1, uid = 0, comm = ''backup'', ut = 9000, st = 100, cpu_pct = 90,
             rss_kb = 900000, nicev = 0, running = True, suspended_by_manager = False\<rparr>"

definition p_xorg :: PInfo where
  "p_xorg = \<lparr>pid = 300, uid = 1000, comm = ''Xorg'', ut = 7000, st = 100, cpu_pct = 50,
             rss_kb = 700000, nicev = 0, running = True, suspended_by_manager = False\<rparr>"

definition m_policy :: mon_state where
  "m_policy = \<lparr>procs = [p_ffmpeg, p_root, p_xorg, p_chrome 1050 230 (160 / 3) True False],
               prev = [p_ffmpeg, p_root, p_xorg, p_chrome 1050 230 (160 / 3) True False],
               prev_time_ms = 6500, priority_procs = [''ffmpeg''],
               auto_manage_enabled = True, effects = []\<rparr>"

text \<open>The same table after the policy pass has stopped PID 42.\<close>

definition m_held :: mon_state where
  "m_held = \<lparr>procs = [p_ffmpeg, p_root, p_xorg, p_chrome 1050 230 0 False True],
             prev = [p_ffmpeg, p_root, p_xorg, p_chrome 1050 230 0 False False],
             prev_time_ms = 8000, priority_procs = [''ffmpeg''],
             auto_manage_enabled = True, effects = [Kill 42 SIGSTOP]\<rparr>"

text \<open>A run of the main loop in which the policy stops PID 42 and the user then disables
  auto-management, and the states it passes through.\<close>

definition cx_evs :: "event list" where
  "cx_evs = [Scan_only 100 5000 (Some [e_ffmpeg, e_chrome 1000 200 True]), Key_A 0, Key_T,
             Tick_proc 100 6500 (Some [e_ffmpeg, e_chrome 1050 230 True])]"

definition cx_held :: mon_state where
  "cx_held = run (\<lambda>_. True) cx_evs mon_init"

definition cx_resumed :: mon_state where
  "cx_resumed = step (\<lambda>_. True) Key_T cx_held"

definition cx_next :: mon_state where
  "cx_next = step (\<lambda>_. True) (Tick_proc 100 8000 (Some [e_ffmpeg, e_chrome 1050 230 True])) cx_resumed"

text \<open>A state whose snapshot holds a set flag.\<close>

definition m_flagged :: mon_state where
  "m_flagged = m_held\<lparr>prev := procs m_held\<rparr>"

section \<open>Properties of the CPU sampler\<close>

lemma c_rem_nonneg: "0 \<le> a \<Longrightarrow> 0 < b \<Longrightarrow> c_rem a b = a mod b"
proof -
  assume a: "0 \<le> a" and b: "0 < b"
  show ?thesis
  proof (cases "a = 0")
    case True then show ?thesis by (simp add: c_rem_def)
  next
    case False
    with a have "sgn a = 1" by simp
    moreover from b have "sgn b = 1" by simp
    moreover from a b have "\<bar>a\<bar> = a" "\<bar>b\<bar> = b" by simp_all
    ultimately have "c_rem a b = a - b * (a div b)" by (simp add: c_rem_def)
    then show ?thesis by (simp add: minus_mult_div_eq_mod)
  qed
qed

lemma clamp01_range: "0 \<le> clamp01 u \<and> clamp01 u \<le> 1"
  by (simp add: clamp01_def Let_def)

text \<open>The loop of \<^verbatim>\<open>push_hist\<close> writes the slot \<open>pos\<close> of the rings \<open>i, ..., ncores - 1\<close>.\<close>

lemma push_loop_eq:
  "push_loop c pos i h =
     (\<lambda>i' j. if i \<le> i' \<and> int i' < ncores c \<and> i' < MAX_CORES \<and> j = pos
              then clamp01 (core c i') else h i' j)"
proof (induction c pos i h rule: push_loop.induct)
  case (1 c pos i h)
  show ?case
  proof (cases "int i < ncores c \<and> i < MAX_CORES")
    case True
    then have "push_loop c pos i h = push_loop c pos (Suc i) (h(i := (h i)(pos := clamp01 (core c i))))"
      by (subst push_loop.simps) simp
    also have "\<dots> = (\<lambda>i' j. if Suc i \<le> i' \<and> int i' < ncores c \<and> i' < MAX_CORES \<and> j = pos
              then clamp01 (core c i') else (h(i := (h i)(pos := clamp01 (core c i)))) i' j)"
      by (rule "1.IH" [OF True])
    also have "\<dots> = (\<lambda>i' j. if i \<le> i' \<and> int i' < ncores c \<and> i' < MAX_CORES \<and> j = pos
              then clamp01 (core c i') else h i' j)"
      using True by (auto simp: fun_eq_iff)
    finally show ?thesis .
  next
    case False
    then have "push_loop c pos i h = h" by (subst push_loop.simps) auto
    moreover from False have "\<And>i'. i \<le> i' \<Longrightarrow> \<not> (int i' < ncores c \<and> i' < MAX_CORES)"
      by auto
    ultimately show ?thesis by (auto simp: fun_eq_iff)
  qed
qed

lemma emit_store_other: "j \<noteq> idx \<Longrightarrow> emit_snap (store_use ini idx u c) j = emit_snap c j"
  by (auto simp: emit_snap_def store_use_def)

lemma emit_store_same: "idx \<le> MAX_CORES \<Longrightarrow> emit_snap (store_use ini idx u c) idx = (if ini then u else 0)"
  by (auto simp: emit_snap_def store_use_def)

text \<open>Later iterations leave the values and the baselines of earlier lines alone.\<close>

lemma sample_loop_below:
  "sample_loop ini lines idx c pv = (idx', c', pv') \<Longrightarrow> j < idx \<Longrightarrow>
     emit_snap c' j = emit_snap c j \<and> pv' j = pv j"
proof (induction lines arbitrary: idx c pv)
  case Nil
  then show ?case by simp
next
  case (Cons l rest)
  obtain ident t where l: "l = (ident, t)" by (cases l)
  show ?case
  proof (cases "idx \<le> MAX_CORES \<and> cpu_label ident")
    case True
    with Cons.prems l have
      "sample_loop ini rest (Suc idx) (store_use ini idx (cpu_use (pv idx) t) c) (pv(idx := t)) = (idx', c', pv')"
      by simp
    from Cons.IH [OF this] Cons.prems(2) show ?thesis
      by (simp add: emit_store_other)
  next
    case False
    with Cons.prems l show ?thesis by (auto split: if_splits)
  qed
qed

text \<open>
  The line with index \<open>idx + k\<close> is compared with the baseline the state held before the
  sample, and becomes the new baseline.
\<close>

lemma sample_loop_at:
  "sample_loop ini lines idx c pv = (idx', c', pv') \<Longrightarrow> k < length lines \<Longrightarrow>
   idx + k \<le> MAX_CORES \<Longrightarrow> (\<And>j. j \<le> k \<Longrightarrow> cpu_label (fst (lines ! j))) \<Longrightarrow>
     emit_snap c' (idx + k) = (if ini then cpu_use (pv (idx + k)) (snd (lines ! k)) else 0)
     \<and> pv' (idx + k) = snd (lines ! k)"
proof (induction lines arbitrary: idx c pv k)
  case Nil
  then show ?case by simp
next
  case (Cons l rest)
  obtain ident t where l: "l = (ident, t)" by (cases l)
  from Cons.prems(4) [of 0] l have lab: "cpu_label ident" by simp
  from Cons.prems(3) have le: "idx \<le> MAX_CORES" by simp
  from Cons.prems(1) l lab le have rec:
    "sample_loop ini rest (Suc idx) (store_use ini idx (cpu_use (pv idx) t) c) (pv(idx := t)) = (idx', c', pv')"
    by simp
  show ?case
  proof (cases k)
    case 0
    from sample_loop_below [OF rec, of idx] le 0 l show ?thesis
      by (simp add: emit_store_same)
  next
    case (Suc k')
    have "emit_snap c' (Suc idx + k') =
            (if ini then cpu_use ((pv(idx := t)) (Suc idx + k')) (snd (rest ! k')) else 0)
          \<and> pv' (Suc idx + k') = snd (rest ! k')"
    proof (rule Cons.IH [OF rec])
      show "k' < length rest" using Cons.prems(2) Suc by simp
      show "Suc idx + k' \<le> MAX_CORES" using Cons.prems(3) Suc by simp
      show "\<And>j. j \<le> k' \<Longrightarrow> cpu_label (fst (rest ! j))"
        using Cons.prems(4) [of "Suc j" for j] Suc by simp
    qed
    with Suc show ?thesis by simp
  qed
qed

lemma unat_ticks_total:
  assumes "ticks_sum_nat t < 2 ^ 64"
  shows "unat (ticks_total t) = ticks_sum_nat t"
proof -
  have "unat (ticks_total t) = ticks_sum_nat t mod 2 ^ 64"
    unfolding ticks_total_def ticks_sum_nat_def
    by (simp add: unat_word_ariths mod_simps)
  with assms show ?thesis by simp
qed

text \<open>Without wrap-around and with counters that do not go back, the code computes the
  specification's formula.\<close>

lemma cpu_use_spec:
  assumes t: "ticks_sum_nat t < 2 ^ 64" and le: "ticks_sum_nat p \<le> ticks_sum_nat t"
    and idle: "t_idle p \<le> t_idle t"
  shows "cpu_use p t = spec_utilization p t"
proof -
  from t le have p: "ticks_sum_nat p < 2 ^ 64" by simp
  have ut: "unat (ticks_total t) = ticks_sum_nat t" by (rule unat_ticks_total [OF t])
  have up: "unat (ticks_total p) = ticks_sum_nat p" by (rule unat_ticks_total [OF p])
  from le ut up have wle: "ticks_total p \<le> ticks_total t" by (simp add: word_le_nat_alt)
  have dt: "unat (ticks_total t - ticks_total p) = ticks_sum_nat t - ticks_sum_nat p"
    using unat_sub [OF wle] ut up by simp
  have di: "unat (t_idle t - t_idle p) = unat (t_idle t) - unat (t_idle p)"
    by (rule unat_sub [OF idle])
  from idle have ile: "unat (t_idle p) \<le> unat (t_idle t)" by (simp add: word_le_nat_alt)
  have pos: "(0 < ticks_total t - ticks_total p) = (ticks_sum_nat p < ticks_sum_nat t)"
    using dt by (simp add: word_less_nat_alt)
  show ?thesis
    unfolding cpu_use_def spec_utilization_def Let_def pos dt di
    using le ile by simp
qed

text \<open>
  C1.  After the first sample (\<open>initialized s\<close>), for every line of \<^verbatim>\<open>/proc/stat\<close> that the
  sampler reads (the line with index \<open>k\<close>: the aggregate line for \<open>k = 0\<close>, the core
  \<open>k - 1\<close> otherwise), the utilization it emits is \<open>1 - idleDelta / totalDelta\<close> when
  \<open>totalDelta > 0\<close> and \<open>0\<close> otherwise, where \<open>totalDelta\<close> is the difference of the sums of
  the eight tick fields of the current and the previous reading and \<open>idleDelta\<close> the
  difference of the idle fields, both in 64-bit unsigned arithmetic; the line becomes the
  previous reading of the next sample.  When the sums do not wrap and the counters do not
  go back, this is the same formula over the integers.
\<close>

theorem cpu_sample_utilization:
  assumes ini: "initialized s" and k: "k < length lines" and kmax: "k \<le> MAX_CORES"
    and labels: "\<forall>j\<le>k. cpu_label (fst (lines ! j))"
  shows "emitted (cpu_sample ncpu (Some lines) s) k =
           (let totalDelta = ticks_total (snd (lines ! k)) - ticks_total (prev_ticks s k);
                idleDelta = t_idle (snd (lines ! k)) - t_idle (prev_ticks s k)
            in if totalDelta > 0 then 1 - real (unat idleDelta) / real (unat totalDelta) else 0)
       \<and> prev_ticks (cpu_sample ncpu (Some lines) s) k = snd (lines ! k)
       \<and> (ticks_sum_nat (snd (lines ! k)) < 2 ^ 64
            \<and> ticks_sum_nat (prev_ticks s k) \<le> ticks_sum_nat (snd (lines ! k))
            \<and> t_idle (prev_ticks s k) \<le> t_idle (snd (lines ! k))
          \<longrightarrow> emitted (cpu_sample ncpu (Some lines) s) k
                = spec_utilization (prev_ticks s k) (snd (lines ! k)))"
proof -
  obtain idx c pv where loop: "sample_loop (initialized s) lines 0 (cpu s) (prev_ticks s) = (idx, c, pv)"
    by (cases "sample_loop (initialized s) lines 0 (cpu s) (prev_ticks s)")
  have at: "emit_snap c (0 + k)
              = (if initialized s then cpu_use (prev_ticks s (0 + k)) (snd (lines ! k)) else 0)
      \<and> pv (0 + k) = snd (lines ! k)"
    by (rule sample_loop_at [OF loop k]) (use kmax labels in auto)
  have em: "emitted (cpu_sample ncpu (Some lines) s) k = emit_snap c k"
    by (simp add: cpu_sample_def loop push_hist_def emitted_def emit_snap_def Let_def)
  have pv: "prev_ticks (cpu_sample ncpu (Some lines) s) k = pv k"
    by (simp add: cpu_sample_def loop push_hist_def Let_def)
  from at ini em have use: "emitted (cpu_sample ncpu (Some lines) s) k = cpu_use (prev_ticks s k) (snd (lines ! k))"
    by simp
  show ?thesis
    using use pv at cpu_use_spec [of "snd (lines ! k)" "prev_ticks s k"]
    by (simp add: cpu_use_def Let_def)
qed

text \<open>
  The scenario of the specification: the previous line \<^verbatim>\<open>cpu 100 0 100 800 0 0 0 0\<close> and
  the current line \<^verbatim>\<open>cpu 150 0 120 850 0 0 0 0\<close> give \<open>totalDelta = 120\<close>,
  \<open>idleDelta = 50\<close> and the utilization \<open>1 - 50 / 120\<close>.
\<close>

theorem cpu_sample_utilization_witness:
  "emitted (cpu_run 4 [Some [stat_line ''cpu'' 100 0 100 800 0 0 0 0],
                       Some [stat_line ''cpu'' 150 0 120 850 0 0 0 0]] cpu_init) 0 = 1 - 50 / 120
   \<and> ticks_total (snd (stat_line ''cpu'' 150 0 120 850 0 0 0 0))
       - ticks_total (snd (stat_line ''cpu'' 100 0 100 800 0 0 0 0)) = 120
   \<and> t_idle (snd (stat_line ''cpu'' 150 0 120 850 0 0 0 0))
       - t_idle (snd (stat_line ''cpu'' 100 0 100 800 0 0 0 0)) = 50"
proof -
  let ?s = "cpu_sample 4 (Some [stat_line ''cpu'' 100 0 100 800 0 0 0 0]) cpu_init"
  let ?lines = "[stat_line ''cpu'' 150 0 120 850 0 0 0 0]"
  have ini: "initialized ?s"
    by (simp add: cpu_sample_def push_hist_def Let_def split: prod.splits)
  have pv: "prev_ticks ?s 0 = snd (stat_line ''cpu'' 100 0 100 800 0 0 0 0)"
    by (simp add: cpu_sample_def push_hist_def Let_def stat_line_def cpu_label_def MAX_CORES_def)
  have k: "0 < length ?lines" by simp
  have kmax: "0 \<le> MAX_CORES" by simp
  have labels: "\<forall>j\<le>0. cpu_label (fst (?lines ! j))" by (simp add: stat_line_def cpu_label_def)
  from cpu_sample_utilization [OF ini k kmax labels, of 4] pv
  show ?thesis
    by (simp add: stat_line_def ticks_total_def Let_def)
qed

text \<open>While \<^verbatim>\<open>initialized\<close> is 0 the loop writes only zeros.\<close>

lemma sample_loop_first:
  "sample_loop False lines idx c pv = (idx', c', pv') \<Longrightarrow> total c = 0 \<Longrightarrow> (\<forall>i. core c i = 0) \<Longrightarrow>
     total c' = 0 \<and> (\<forall>i. core c' i = 0)"
proof (induction lines arbitrary: idx c pv)
  case Nil
  then show ?case by simp
next
  case (Cons l rest)
  obtain ident t where l: "l = (ident, t)" by (cases l)
  show ?case
  proof (cases "idx \<le> MAX_CORES \<and> cpu_label ident")
    case True
    let ?c = "store_use False idx (cpu_use (pv idx) t) c"
    from True Cons.prems(1) l have rec:
      "sample_loop False rest (Suc idx) ?c (pv(idx := t)) = (idx', c', pv')" by simp
    from Cons.prems(2,3) have "total ?c = 0" "\<forall>i. core ?c i = 0"
      by (auto simp: store_use_def)
    with Cons.IH [OF rec] show ?thesis by blast
  next
    case False
    with Cons.prems l show ?thesis by (auto split: if_splits)
  qed
qed

text \<open>
  C7.  On the first sample after the start (the zero-initialised state), the sampler emits
  0 for the aggregate utilization and for every core; a tick whose \<^verbatim>\<open>fopen\<close> fails leaves
  the state as it is, so the next one is still the first.  More generally, in any state
  without a previous sample every line read is given the value 0, whatever the baseline.
\<close>

theorem first_sample_emits_zero:
  "total (cpu (cpu_sample ncpu (Some lines) cpu_init)) = 0
   \<and> (\<forall>i. core (cpu (cpu_sample ncpu (Some lines) cpu_init)) i = 0)
   \<and> initialized (cpu_sample ncpu (Some lines) cpu_init)
   \<and> cpu_sample ncpu None cpu_init = cpu_init
   \<and> (\<not> initialized s \<and> k < length lines \<and> k \<le> MAX_CORES
        \<and> (\<forall>j\<le>k. cpu_label (fst (lines ! j)))
      \<longrightarrow> emitted (cpu_sample ncpu (Some lines) s) k = 0)"
proof -
  obtain idx c pv where loop:
    "sample_loop False lines 0 (cpu cpu_init) (prev_ticks cpu_init) = (idx, c, pv)"
    by (cases "sample_loop False lines 0 (cpu cpu_init) (prev_ticks cpu_init)")
  have z: "total c = 0 \<and> (\<forall>i. core c i = 0)"
    by (rule sample_loop_first [OF loop]) (simp_all add: cpu_init_def)
  have ni: "initialized cpu_init = False" by (simp add: cpu_init_def)
  have c: "cpu (cpu_sample ncpu (Some lines) cpu_init) = c\<lparr>ncores := ncores (cpu (cpu_sample ncpu (Some lines) cpu_init))\<rparr>"
    by (simp add: cpu_sample_def ni loop push_hist_def Let_def)
  have a: "total (cpu (cpu_sample ncpu (Some lines) cpu_init)) = 0"
    by (subst c) (simp add: z)
  have b: "\<forall>i. core (cpu (cpu_sample ncpu (Some lines) cpu_init)) i = 0"
    by (subst c) (simp add: z)
  have d: "initialized (cpu_sample ncpu (Some lines) cpu_init)"
    by (simp add: cpu_sample_def push_hist_def Let_def split: prod.splits)
  have e: "cpu_sample ncpu None cpu_init = cpu_init" by (simp add: cpu_sample_def)
  have f: "emitted (cpu_sample ncpu (Some lines) s) k = 0"
    if h: "\<not> initialized s" "k < length lines" "k \<le> MAX_CORES" "\<forall>j\<le>k. cpu_label (fst (lines ! j))"
  proof -
    obtain idx2 c2 pv2 where loop2:
      "sample_loop (initialized s) lines 0 (cpu s) (prev_ticks s) = (idx2, c2, pv2)"
      by (cases "sample_loop (initialized s) lines 0 (cpu s) (prev_ticks s)")
    have "emit_snap c2 (0 + k) = (if initialized s then cpu_use (prev_ticks s (0 + k)) (snd (lines ! k)) else 0)
        \<and> pv2 (0 + k) = snd (lines ! k)"
      by (rule sample_loop_at [OF loop2 h(2)]) (use h in auto)
    with h(1) have "emit_snap c2 k = 0" by simp
    moreover have "emitted (cpu_sample ncpu (Some lines) s) k = emit_snap c2 k"
      by (simp add: cpu_sample_def loop2 push_hist_def emitted_def emit_snap_def Let_def)
    ultimately show ?thesis by simp
  qed
  from a b d e f show ?thesis by blast
qed

text \<open>
  A first sample of two lines emits 0 for both, although the comparison with the zero
  baseline would give \<open>1 - 800 / 1000\<close>.
\<close>

theorem first_sample_emits_zero_witness:
  "emitted (cpu_sample 4 (Some [stat_line ''cpu'' 100 0 100 800 0 0 0 0,
                                stat_line ''cpu0'' 60 0 40 400 0 0 0 0]) cpu_init) 0 = 0
   \<and> emitted (cpu_sample 4 (Some [stat_line ''cpu'' 100 0 100 800 0 0 0 0,
                                stat_line ''cpu0'' 60 0 40 400 0 0 0 0]) cpu_init) 1 = 0
   \<and> cpu_use zero_ticks (snd (stat_line ''cpu'' 100 0 100 800 0 0 0 0)) = 1 - 800 / 1000"
proof -
  let ?lines = "[stat_line ''cpu'' 100 0 100 800 0 0 0 0, stat_line ''cpu0'' 60 0 40 400 0 0 0 0]"
  have ni: "\<not> initialized cpu_init" by (simp add: cpu_init_def)
  have l0: "\<forall>j\<le>0. cpu_label (fst (?lines ! j))" by (simp add: stat_line_def cpu_label_def)
  have l1: "\<forall>j\<le>1. cpu_label (fst (?lines ! j))"
    by (simp add: stat_line_def cpu_label_def le_Suc_eq)
  have u: "cpu_use zero_ticks (snd (stat_line ''cpu'' 100 0 100 800 0 0 0 0)) = 1 - 800 / 1000"
    by (simp add: cpu_use_def zero_ticks_def stat_line_def ticks_total_def Let_def)
  from first_sample_emits_zero [of 4 ?lines cpu_init 0] first_sample_emits_zero [of 4 ?lines cpu_init 1]
    ni l0 l1 u
  show ?thesis by (simp add: MAX_CORES_def)
qed



text \<open>A cursor in range comes back to its slot exactly after a multiple of the capacity.\<close>

lemma ring_return:
  fixes h n W :: int
  assumes h: "0 \<le> h" "h < W"
  shows "((h + n) mod W = h) = (n mod W = 0)"
proof -
  define m where "m = n mod W"
  from h have W: "0 < W" by simp
  have m: "0 \<le> m" "m < W" using W by (simp_all add: m_def)
  have eq: "(h + n) mod W = (h + m) mod W" by (simp add: m_def mod_add_right_eq)
  show ?thesis
  proof (cases "h + m < W")
    case True
    with h m have "(h + m) mod W = h + m" by simp
    with eq have "((h + n) mod W = h) = (m = 0)" by simp
    then show ?thesis by (simp add: m_def)
  next
    case False
    have "(h + m) mod W = h + m - W"
      by (rule int_mod_pos_eq [where q = 1]) (use False h m in auto)
    with eq have "(h + n) mod W = h + m - W" by simp
    with m False h have "((h + n) mod W = h) = (m = 0)" by auto
    then show ?thesis by (simp add: m_def)
  qed
qed

lemma cpu_sample_Some:
  "\<exists>c n pv. cpu_sample ncpu (Some lines) s
      = push_hist (s\<lparr>cpu := c\<lparr>ncores := n\<rparr>, prev_ticks := pv, initialized := True\<rparr>)"
proof -
  obtain idx c pv where loop: "sample_loop (initialized s) lines 0 (cpu s) (prev_ticks s) = (idx, c, pv)"
    by (cases "sample_loop (initialized s) lines 0 (cpu s) (prev_ticks s)")
  show ?thesis
    unfolding cpu_sample_def by (simp add: loop Let_def) blast
qed

lemma hpos_sample:
  assumes "0 \<le> hpos s"
  shows "hpos (cpu_sample ncpu (Some lines) s) = (hpos s + 1) mod HIST_W"
proof -
  from cpu_sample_Some obtain c n pv where
    "cpu_sample ncpu (Some lines) s
      = push_hist (s\<lparr>cpu := c\<lparr>ncores := n\<rparr>, prev_ticks := pv, initialized := True\<rparr>)"
    by blast
  then have "hpos (cpu_sample ncpu (Some lines) s) = c_rem (hpos s + 1) HIST_W"
    by (simp add: push_hist_def)
  also have "\<dots> = (hpos s + 1) mod HIST_W"
    by (rule c_rem_nonneg) (use assms in \<open>simp_all add: HIST_W_def\<close>)
  finally show ?thesis .
qed

lemma hist_sample:
  "hist_cpu (cpu_sample ncpu (Some lines) s) i j =
     (if int i < ncores (cpu (cpu_sample ncpu (Some lines) s)) \<and> i < MAX_CORES \<and> j = hpos s
      then clamp01 (core (cpu (cpu_sample ncpu (Some lines) s)) i) else hist_cpu s i j)"
proof -
  from cpu_sample_Some obtain c n pv where eq:
    "cpu_sample ncpu (Some lines) s
      = push_hist (s\<lparr>cpu := c\<lparr>ncores := n\<rparr>, prev_ticks := pv, initialized := True\<rparr>)"
    by blast
  have a: "cpu (cpu_sample ncpu (Some lines) s) = c\<lparr>ncores := n\<rparr>"
    by (simp add: eq push_hist_def)
  have b: "hist_cpu (cpu_sample ncpu (Some lines) s) = push_loop (c\<lparr>ncores := n\<rparr>) (hpos s) 0 (hist_cpu s)"
    by (simp add: eq push_hist_def)
  show ?thesis unfolding a b by (simp add: push_loop_eq)
qed


lemma hist_ok_sample:
  assumes ok: "hist_ok s"
  shows "hist_ok (cpu_sample ncpu f s)"
proof (cases f)
  case None
  with ok show ?thesis by (simp add: cpu_sample_def)
next
  case (Some lines)
  from ok have h: "0 \<le> hpos s" by (simp add: hist_ok_def)
  from ok have v: "\<And>i j. 0 \<le> hist_cpu s i j \<and> hist_cpu s i j \<le> 1" by (simp add: hist_ok_def)
  have p: "0 \<le> hpos (cpu_sample ncpu (Some lines) s) \<and> hpos (cpu_sample ncpu (Some lines) s) < HIST_W"
    unfolding hpos_sample [OF h] by (simp add: HIST_W_def)
  have q: "0 \<le> hist_cpu (cpu_sample ncpu (Some lines) s) i j
      \<and> hist_cpu (cpu_sample ncpu (Some lines) s) i j \<le> 1" for i j
    unfolding hist_sample [of ncpu lines s i j] using v [of i j] clamp01_range by simp
  from p q show ?thesis unfolding Some hist_ok_def by blast
qed

lemma hist_ok_run: "hist_ok s \<Longrightarrow> hist_ok (cpu_run ncpu fs s)"
  by (induction fs arbitrary: s) (simp_all add: hist_ok_sample)

lemma hist_ok_init: "hist_ok cpu_init"
  by (simp add: hist_ok_def cpu_init_def HIST_W_def)

lemma hpos_run:
  "hist_ok s \<Longrightarrow> hpos (cpu_run ncpu fs s) = (hpos s + int (ticks_done fs)) mod HIST_W"
proof (induction fs arbitrary: s)
  case Nil
  then show ?case by (simp add: hist_ok_def)
next
  case (Cons f fs)
  have ih: "hpos (cpu_run ncpu fs (cpu_sample ncpu f s))
         = (hpos (cpu_sample ncpu f s) + int (ticks_done fs)) mod HIST_W"
    by (rule Cons.IH [OF hist_ok_sample [OF Cons.prems]])
  show ?case
  proof (cases f)
    case None
    have "cpu_sample ncpu None s = s" by (simp add: cpu_sample_def)
    with ih None show ?thesis by simp
  next
    case (Some lines)
    from Cons.prems have h: "0 \<le> hpos s" by (simp add: hist_ok_def)
    have "hpos (cpu_run ncpu (f # fs) s)
         = ((hpos s + 1) mod HIST_W + int (ticks_done fs)) mod HIST_W"
      using ih unfolding Some hpos_sample [OF h] by simp
    also have "\<dots> = ((hpos s + 1) + int (ticks_done fs)) mod HIST_W"
      by (rule mod_add_left_eq)
    also have "(hpos s + 1) + int (ticks_done fs) = hpos s + int (ticks_done (f # fs))"
      unfolding Some by simp
    finally show ?thesis .
  qed
qed

text \<open>
  C8.  After every sequence of sampling ticks from the start: every value in the history
  rings lies in \<open>[0, 1]\<close>; the cursor lies in \<open>[0, HIST_W)\<close> and equals the number of
  samples taken modulo \<open>HIST_W\<close>; a sample advances it by exactly one (a tick whose
  \<^verbatim>\<open>fopen\<close> fails takes no sample and changes nothing); a sample writes the clamped
  utilization of each core below \<^verbatim>\<open>cpu.ncores\<close> to the cursor's slot of that core's ring
  and leaves every other slot as it was; and the cursor is back on a slot exactly after a
  multiple of \<open>HIST_W\<close> samples, so the value a write replaces is the oldest of the ring.
\<close>

theorem history_ring_invariants:
  "(\<forall>i j. 0 \<le> hist_cpu (cpu_run ncpu fs cpu_init) i j \<and> hist_cpu (cpu_run ncpu fs cpu_init) i j \<le> 1)
   \<and> 0 \<le> hpos (cpu_run ncpu fs cpu_init) \<and> hpos (cpu_run ncpu fs cpu_init) < HIST_W
   \<and> hpos (cpu_run ncpu fs cpu_init) = int (ticks_done fs) mod HIST_W
   \<and> hpos (cpu_sample ncpu (Some lines) (cpu_run ncpu fs cpu_init))
       = (hpos (cpu_run ncpu fs cpu_init) + 1) mod HIST_W
   \<and> cpu_sample ncpu None (cpu_run ncpu fs cpu_init) = cpu_run ncpu fs cpu_init
   \<and> (\<forall>i j. hist_cpu (cpu_sample ncpu (Some lines) (cpu_run ncpu fs cpu_init)) i j =
         (if int i < ncores (cpu (cpu_sample ncpu (Some lines) (cpu_run ncpu fs cpu_init)))
             \<and> i < MAX_CORES \<and> j = hpos (cpu_run ncpu fs cpu_init)
          then clamp01 (core (cpu (cpu_sample ncpu (Some lines) (cpu_run ncpu fs cpu_init))) i)
          else hist_cpu (cpu_run ncpu fs cpu_init) i j))
   \<and> (hpos (cpu_run ncpu gs (cpu_run ncpu fs cpu_init)) = hpos (cpu_run ncpu fs cpu_init))
       = (int (ticks_done gs) mod HIST_W = 0)"
proof -
  let ?s = "cpu_run ncpu fs cpu_init"
  have ok: "hist_ok ?s" by (rule hist_ok_run [OF hist_ok_init])
  then have r: "0 \<le> hpos ?s" "hpos ?s < HIST_W" by (simp_all add: hist_ok_def)
  have a: "\<forall>i j. 0 \<le> hist_cpu ?s i j \<and> hist_cpu ?s i j \<le> 1"
    using ok by (simp add: hist_ok_def)
  have "hpos cpu_init = 0" by (simp add: cpu_init_def)
  with hpos_run [OF hist_ok_init, of ncpu fs]
  have c: "hpos ?s = int (ticks_done fs) mod HIST_W" by simp
  have d: "hpos (cpu_sample ncpu (Some lines) ?s) = (hpos ?s + 1) mod HIST_W"
    by (rule hpos_sample [OF r(1)])
  have e: "cpu_sample ncpu None ?s = ?s" by (simp add: cpu_sample_def)
  have f: "\<forall>i j. hist_cpu (cpu_sample ncpu (Some lines) ?s) i j =
         (if int i < ncores (cpu (cpu_sample ncpu (Some lines) ?s)) \<and> i < MAX_CORES \<and> j = hpos ?s
          then clamp01 (core (cpu (cpu_sample ncpu (Some lines) ?s)) i)
          else hist_cpu ?s i j)"
    using hist_sample [of ncpu lines ?s] by blast
  have g: "(hpos (cpu_run ncpu gs ?s) = hpos ?s) = (int (ticks_done gs) mod HIST_W = 0)"
    unfolding hpos_run [OF ok, of ncpu gs] by (rule ring_return [OF r])
  from a r c d e f g show ?thesis by blast
qed

text \<open>
  Three ticks, one of them without a sample, leave the cursor at 2; the second sample
  writes \<open>7 / 12\<close> to slot 1 of core 0; 120 further samples bring the cursor back.
\<close>

theorem history_ring_invariants_witness:
  "hpos (cpu_run 4 [Some tick_a, None, Some tick_b] cpu_init) = 2
   \<and> hist_cpu (cpu_run 4 [Some tick_a, Some tick_b] cpu_init) 0 1 = 7 / 12
   \<and> 0 \<le> hist_cpu (cpu_run 4 [Some tick_a, Some tick_b] cpu_init) 0 1
   \<and> hist_cpu (cpu_run 4 [Some tick_a, Some tick_b] cpu_init) 0 1 \<le> 1
   \<and> hpos (cpu_run 4 (replicate 120 (Some tick_b)) (cpu_run 4 [Some tick_a] cpu_init))
       = hpos (cpu_run 4 [Some tick_a] cpu_init)"
proof -
  note t1 = history_ring_invariants [of 4 "[Some tick_a, None, Some tick_b]" tick_b "[]"]
  note t2 = history_ring_invariants [of 4 "[Some tick_a, Some tick_b]" tick_b "[]"]
  note t3 = history_ring_invariants [of 4 "[Some tick_a]" tick_b "replicate 120 (Some tick_b)"]
  have n: "ticks_done (replicate 120 (Some tick_b)) = 120"
    by (simp add: eval_nat_numeral)
  have "hpos (cpu_run 4 [Some tick_a, None, Some tick_b] cpu_init)
      = int (ticks_done [Some tick_a, None, Some tick_b]) mod HIST_W"
    by (rule t1 [THEN conjunct2, THEN conjunct2, THEN conjunct2, THEN conjunct1])
  then have a: "hpos (cpu_run 4 [Some tick_a, None, Some tick_b] cpu_init) = 2"
    by (simp add: HIST_W_def)
  have b: "hist_cpu (cpu_run 4 [Some tick_a, Some tick_b] cpu_init) 0 1 = 7 / 12"
    by (simp add: tick_a_def tick_b_def stat_line_def cpu_sample_def cpu_init_def cpu_label_def
        MAX_CORES_def store_use_def push_hist_def Let_def cpu_use_def ticks_total_def
        push_loop_eq c_rem_def HIST_W_def clamp01_def)
  have c: "0 \<le> hist_cpu (cpu_run 4 [Some tick_a, Some tick_b] cpu_init) 0 1
      \<and> hist_cpu (cpu_run 4 [Some tick_a, Some tick_b] cpu_init) 0 1 \<le> 1"
    by (rule t2 [THEN conjunct1, THEN spec, THEN spec])
  have "(hpos (cpu_run 4 (replicate 120 (Some tick_b)) (cpu_run 4 [Some tick_a] cpu_init))
       = hpos (cpu_run 4 [Some tick_a] cpu_init))
       = (int (ticks_done (replicate 120 (Some tick_b))) mod HIST_W = 0)"
    by (rule t3 [THEN conjunct2, THEN conjunct2, THEN conjunct2, THEN conjunct2,
                 THEN conjunct2, THEN conjunct2, THEN conjunct2])
  then have d: "hpos (cpu_run 4 (replicate 120 (Some tick_b)) (cpu_run 4 [Some tick_a] cpu_init))
       = hpos (cpu_run 4 [Some tick_a] cpu_init)"
    unfolding n by (simp add: HIST_W_def)
  from a b c d show ?thesis by (intro conjI) (erule conjunct1 conjunct2 | assumption)+
qed


section \<open>Properties of the process scanner\<close>

text \<open>The search of the snapshot finds the first record with the PID, if there is one.\<close>

lemma find_prev_Some: "find_prev pv x = Some q \<Longrightarrow> q \<in> set pv \<and> pid q = x"
  by (induction pv) (auto split: if_splits)

lemma find_prev_None: "(find_prev pv x = None) = (x \<notin> pid ` set pv)"
  by (induction pv) auto

text \<open>Every record a scan stores satisfies \<open>scanned\<close>.\<close>

lemma scan_entry_scanned: "scan_entry tps td pv e = Some p \<Longrightarrow> scanned tps td pv p"
  by (auto simp: scan_entry_def scanned_def Let_def split: if_splits option.splits prod.splits)

lemma scan_loop_set:
  "p \<in> set (scan_loop tps td pv es acc) \<Longrightarrow>
     p \<in> set acc \<or> (\<exists>e\<in>set es. scan_entry tps td pv e = Some p)"
proof (induction es arbitrary: acc)
  case Nil
  then show ?case by simp
next
  case (Cons e es)
  show ?case
  proof (cases "length acc < MAX_PROCS")
    case False
    with Cons.prems show ?thesis by simp
  next
    case True
    show ?thesis
    proof (cases "scan_entry tps td pv e")
      case None
      with True Cons.prems have "p \<in> set (scan_loop tps td pv es acc)" by simp
      from Cons.IH [OF this] show ?thesis by auto
    next
      case (Some r)
      with True Cons.prems have "p \<in> set (scan_loop tps td pv es (acc @ [r]))" by simp
      from Cons.IH [OF this] Some show ?thesis by auto
    qed
  qed
qed

lemma scan_processes_scanned:
  assumes "p \<in> set (procs (scan_processes tps now d s))"
  shows "scanned tps (if prev_time_ms s > 0 then now - prev_time_ms s else 1500) (prev s) p"
proof (cases d)
  case None
  with assms show ?thesis by (simp add: scan_processes_def)
next
  case (Some es)
  let ?td = "if prev_time_ms s > 0 then now - prev_time_ms s else 1500"
  from assms Some have "p \<in> set (scan_loop tps ?td (prev s) es [])"
    by (simp add: scan_processes_def Let_def)
  from scan_loop_set [OF this] obtain e where "scan_entry tps ?td (prev s) e = Some p" by auto
  then show ?thesis by (rule scan_entry_scanned)
qed

text \<open>Bounds and the agreement with the specification's arithmetic.\<close>

lemma div_ge1:
  fixes x d :: real
  assumes "0 \<le> x" "1 \<le> d"
  shows "0 \<le> x / d \<and> x / d \<le> x"
proof -
  from assms have "x / d \<le> x / 1" by (intro divide_left_mono) simp_all
  moreover from assms have "0 \<le> x / d" by simp
  ultimately show ?thesis by simp
qed

lemma pct_bound:
  fixes a :: real
  assumes a: "0 \<le> a" and t: "1 \<le> t" and d: "1 \<le> d"
  shows "0 \<le> a * 1000 / t * 100 / d \<and> a * 1000 / t * 100 / d \<le> a * 100000"
proof -
  define x1 where "x1 = a * 1000"
  define x2 where "x2 = x1 / t * 100"
  from a have "0 \<le> x1" by (simp add: x1_def)
  from div_ge1 [OF this t] have "0 \<le> x1 / t" "x1 / t \<le> x1" by simp_all
  then have x2: "0 \<le> x2" "x2 \<le> a * 100000" by (simp_all add: x2_def x1_def)
  from div_ge1 [OF x2(1) d] x2(2) have "0 \<le> x2 / d \<and> x2 / d \<le> a * 100000" by simp
  then show ?thesis unfolding x2_def x1_def .
qed

lemma max_int_diff:
  "real_of_int (max 0 (int m - int n) + max 0 (int k - int l)) = real ((m - n) + (k - l))"
  by (simp add: max_def of_nat_diff)

lemma floor_sub: "(if (u::u64) > v then unat (u - v) else unat (0::u64)) = unat u - unat v"
  by (simp add: unat_sub word_less_nat_alt word_le_nat_alt)

lemma proc_cpu_pct_spec:
  assumes "(unat u - unat (ut q)) + (unat s - unat (st q)) < 2 ^ 64"
  shows "proc_cpu_pct tps td q u s =
           (if td > 0 then spec_cpu_percent tps td (unat (ut q)) (unat (st q)) (unat u) (unat s) else 0)"
proof -
  let ?dut = "if u > ut q then u - ut q else 0"
  let ?dst = "if s > st q then s - st q else 0"
  have a: "unat ?dut = unat u - unat (ut q)" using floor_sub [of "ut q" u] by (simp split: if_splits)
  have b: "unat ?dst = unat s - unat (st q)" using floor_sub [of "st q" s] by (simp split: if_splits)
  have "unat (?dut + ?dst) = (unat ?dut + unat ?dst) mod 2 ^ 64" by (simp add: unat_word_ariths)
  with a b assms have c: "unat (?dut + ?dst) = (unat u - unat (ut q)) + (unat s - unat (st q))"
    by simp
  note d = max_int_diff [of "unat u" "unat (ut q)" "unat s" "unat (st q)"]
  show ?thesis
    unfolding proc_cpu_pct_def spec_cpu_percent_def Let_def c d by simp
qed

text \<open>The concrete entries, evaluated.\<close>

lemma scan_entry_ffmpeg:
  "scan_entry tps td pv e_ffmpeg =
     Some (case find_prev pv 7 of None \<Rightarrow> p_ffmpeg
           | Some q \<Rightarrow> p_ffmpeg\<lparr>cpu_pct := proc_cpu_pct tps td q 100 10,
                                 suspended_by_manager := suspended_by_manager q\<rparr>)"
  by (simp add: scan_entry_def e_ffmpeg_def p_ffmpeg_def atoi_def isdigit_def Let_def
      split: option.splits)

lemma scan_entry_chrome:
  "scan_entry tps td pv (e_chrome u s r) =
     Some (case find_prev pv 42 of None \<Rightarrow> p_chrome u s 0 r False
           | Some q \<Rightarrow> (p_chrome u s 0 r False)\<lparr>cpu_pct := proc_cpu_pct tps td q u s,
                                 suspended_by_manager := suspended_by_manager q\<rparr>)"
  by (simp add: scan_entry_def e_chrome_def p_chrome_def atoi_def isdigit_def Let_def
      split: option.splits)

lemma scan1_eq:
  "scan1 = \<lparr>procs = [p_ffmpeg, p_chrome 1000 200 0 True False],
            prev = [p_ffmpeg, p_chrome 1000 200 0 True False],
            prev_time_ms = 5000, priority_procs = [], auto_manage_enabled = False, effects = []\<rparr>"
  by (simp add: scan1_def scan_processes_def mon_init_def Let_def scan_entry_ffmpeg
      scan_entry_chrome MAX_PROCS_def)

lemma pid_simps: "pid p_ffmpeg = 7" "pid (p_chrome u s c r f) = 42"
  by (simp_all add: p_ffmpeg_def p_chrome_def)

lemma scan2_procs:
  "procs (scan_processes 100 6500 (Some [e_ffmpeg, e_chrome 1050 230 True]) scan1)
     = [p_ffmpeg, p_chrome 1050 230 (160 / 3) True False]"
  by (simp add: scan1_eq scan_processes_def Let_def scan_entry_ffmpeg scan_entry_chrome
      MAX_PROCS_def pid_simps)
     (simp add: p_ffmpeg_def p_chrome_def proc_cpu_pct_def)

text \<open>
  C2.  For a process that the scan stores and that the previous scan's snapshot holds, with
  \<open>elapsedMs > 0\<close> and a positive number of clock ticks per second: the deltas of the user
  and system ticks are each floored at 0, their sum (an \<^verbatim>\<open>unsigned long\<close>) is multiplied by
  1000 and divided by the ticks per second, and \<^verbatim>\<open>cpu_pct\<close> is that value times 100
  divided by \<open>elapsedMs\<close>; the result is at least 0 and below \<open>2 ^ 64 * 100000\<close>, hence
  finite; when the sum of the deltas does not wrap it is the specification's formula over
  the integers.
\<close>

theorem scan_cpu_percent:
  assumes p: "p \<in> set (procs (scan_processes tps now d s))"
    and q: "find_prev (prev s) (pid p) = Some q"
    and el: "elapsedMs = (if prev_time_ms s > 0 then now - prev_time_ms s else 1500)"
    and pos: "0 < elapsedMs" and tps: "0 < tps"
  shows "cpu_pct p =
           (let dut = (if ut p > ut q then ut p - ut q else 0);
                dst = (if st p > st q then st p - st q else 0);
                cpu_time_ms = (real (unat (dut + dst)) * 1000) / real_of_int tps
            in cpu_time_ms * 100 / real_of_int elapsedMs)
       \<and> 0 \<le> cpu_pct p \<and> cpu_pct p < 2 ^ 64 * 100000
       \<and> ((unat (ut p) - unat (ut q)) + (unat (st p) - unat (st q)) < 2 ^ 64
            \<longrightarrow> cpu_pct p = spec_cpu_percent tps elapsedMs
                               (unat (ut q)) (unat (st q)) (unat (ut p)) (unat (st p)))"
proof -
  from scan_processes_scanned [OF p] q el
  have eq: "cpu_pct p = proc_cpu_pct tps elapsedMs q (ut p) (st p)"
    by (simp add: scanned_def)
  let ?w = "(if ut p > ut q then ut p - ut q else 0) + (if st p > st q then st p - st q else 0)"
  have form: "proc_cpu_pct tps elapsedMs q (ut p) (st p)
      = real (unat ?w) * 1000 / real_of_int tps * 100 / real_of_int elapsedMs"
    using pos by (simp add: proc_cpu_pct_def Let_def)
  have b: "0 \<le> real (unat ?w) * 1000 / real_of_int tps * 100 / real_of_int elapsedMs
      \<and> real (unat ?w) * 1000 / real_of_int tps * 100 / real_of_int elapsedMs \<le> real (unat ?w) * 100000"
  proof (rule pct_bound)
    show "0 \<le> real (unat ?w)" by (rule of_nat_0_le_iff)
    show "1 \<le> real_of_int tps" using tps by simp
    show "1 \<le> real_of_int elapsedMs" using pos by simp
  qed
  have "unat ?w < 2 ^ LENGTH(64)" by (rule unsigned_less)
  then have "unat ?w < 2 ^ 64" by simp
  then have "real (unat ?w) < 2 ^ 64"
    by (metis of_nat_less_iff of_nat_numeral of_nat_power)
  then have lt: "real (unat ?w) * 100000 < 2 ^ 64 * 100000" by simp
  have c1: "cpu_pct p =
           (let dut = (if ut p > ut q then ut p - ut q else 0);
                dst = (if st p > st q then st p - st q else 0);
                cpu_time_ms = (real (unat (dut + dst)) * 1000) / real_of_int tps
            in cpu_time_ms * 100 / real_of_int elapsedMs)"
    unfolding eq form Let_def ..
  have c2: "0 \<le> cpu_pct p \<and> cpu_pct p < 2 ^ 64 * 100000"
    unfolding eq form using b lt by linarith
  have c3: "cpu_pct p = spec_cpu_percent tps elapsedMs
                               (unat (ut q)) (unat (st q)) (unat (ut p)) (unat (st p))"
    if "(unat (ut p) - unat (ut q)) + (unat (st p) - unat (st q)) < 2 ^ 64"
    unfolding eq proc_cpu_pct_spec [OF that] using pos by simp
  from c1 c2 c3 show ?thesis by blast
qed

text \<open>
  The scenario of the specification: \<open>utime = 1000, stime = 200\<close>, then
  \<open>utime = 1050, stime = 230\<close>, 1500 ms later, with 100 ticks per second.
\<close>

theorem scan_cpu_percent_witness:
  "map cpu_pct (procs (scan_processes 100 6500 (Some [e_ffmpeg, e_chrome 1050 230 True]) scan1))
     = [0, 800 * 100 / 1500]
   \<and> spec_cpu_percent 100 1500 1000 200 1050 230 = 800 * 100 / 1500"
proof -
  let ?p = "p_chrome 1050 230 (160 / 3) True False"
  let ?q = "p_chrome 1000 200 0 True False"
  have p: "?p \<in> set (procs (scan_processes 100 6500 (Some [e_ffmpeg, e_chrome 1050 230 True]) scan1))"
    by (simp add: scan2_procs)
  have q: "find_prev (prev scan1) (pid ?p) = Some ?q"
    by (simp add: scan1_eq pid_simps)
  have el: "(1500::int) = (if prev_time_ms scan1 > 0 then 6500 - prev_time_ms scan1 else 1500)"
    by (simp add: scan1_eq)
  have ov: "(unat (ut ?p) - unat (ut ?q)) + (unat (st ?p) - unat (st ?q)) < 2 ^ 64"
    by (simp add: p_chrome_def)
  from scan_cpu_percent [OF p q el] ov
  have "cpu_pct ?p = spec_cpu_percent 100 1500 (unat (ut ?q)) (unat (st ?q)) (unat (ut ?p)) (unat (st ?p))"
    by simp
  then have s: "spec_cpu_percent 100 1500 1000 200 1050 230 = 800 * 100 / 1500"
    by (simp add: p_chrome_def)
  have "map cpu_pct (procs (scan_processes 100 6500 (Some [e_ffmpeg, e_chrome 1050 230 True]) scan1))
     = [0, 800 * 100 / 1500]"
    by (simp add: scan2_procs p_ffmpeg_def p_chrome_def)
  with s show ?thesis by simp
qed

lemma scan_entry_vlc:
  "scan_entry tps td pv e_vlc =
     Some (case find_prev pv 99 of None \<Rightarrow> p_vlc
           | Some q \<Rightarrow> p_vlc\<lparr>cpu_pct := proc_cpu_pct tps td q 5000 100,
                              suspended_by_manager := suspended_by_manager q\<rparr>)"
  by (simp add: scan_entry_def e_vlc_def p_vlc_def atoi_def isdigit_def Let_def
      split: option.splits)

text \<open>
  C6.  Every record of a scan whose PID is not in the previous scan's snapshot has
  \<^verbatim>\<open>cpu_pct\<close> equal to 0, so a record with a non-zero \<^verbatim>\<open>cpu_pct\<close> has its PID in the
  snapshot; the snapshot is the table of the last scan that could open \<^verbatim>\<open>/proc\<close>.
\<close>

theorem new_pid_cpu_zero:
  "(\<forall>p \<in> set (procs (scan_processes tps now d s)).
      (pid p \<notin> pid ` set (prev s) \<longrightarrow> cpu_pct p = 0)
      \<and> (cpu_pct p \<noteq> 0 \<longrightarrow> pid p \<in> pid ` set (prev s)))
   \<and> prev (scan_processes tps now (Some es) s) = procs (scan_processes tps now (Some es) s)
   \<and> prev (scan_processes tps now None s) = prev s"
proof -
  have a: "pid p \<notin> pid ` set (prev s) \<longrightarrow> cpu_pct p = 0"
    if "p \<in> set (procs (scan_processes tps now d s))" for p
    using scan_processes_scanned [OF that] find_prev_None [of "prev s" "pid p"]
    by (auto simp: scanned_def split: option.splits)
  have b: "prev (scan_processes tps now (Some es) s) = procs (scan_processes tps now (Some es) s)"
    by (simp add: scan_processes_def Let_def)
  have c: "prev (scan_processes tps now None s) = prev s"
    by (simp add: scan_processes_def Let_def)
  from a b c show ?thesis by blast
qed

text \<open>PID 99 appears in the second scan only: its \<^verbatim>\<open>cpu_pct\<close> is 0, that of PID 42 is not.\<close>

theorem new_pid_cpu_zero_witness:
  "map pid (prev scan1) = [7, 42]
   \<and> map pid (procs (scan_processes 100 6500 (Some [e_chrome 1050 230 True, e_vlc]) scan1)) = [42, 99]
   \<and> map cpu_pct (procs (scan_processes 100 6500 (Some [e_chrome 1050 230 True, e_vlc]) scan1))
       = [160 / 3, 0]"
proof -
  let ?s2 = "scan_processes 100 6500 (Some [e_chrome 1050 230 True, e_vlc]) scan1"
  have ev: "procs ?s2 = [p_chrome 1050 230 (160 / 3) True False, p_vlc]"
    by (simp add: scan1_eq scan_processes_def Let_def scan_entry_vlc scan_entry_chrome
        MAX_PROCS_def pid_simps)
       (simp add: p_chrome_def proc_cpu_pct_def)
  have pv: "map pid (prev scan1) = [7, 42]" by (simp add: scan1_eq pid_simps)
  then have notin: "pid p_vlc \<notin> pid ` set (prev scan1)"
    by (simp add: scan1_eq pid_simps p_vlc_def)
  have "p_vlc \<in> set (procs ?s2)" by (simp add: ev)
  with new_pid_cpu_zero [of 100 6500 "Some [e_chrome 1050 230 True, e_vlc]" scan1] notin
  have z: "cpu_pct p_vlc = 0" by blast
  have "map pid (procs ?s2) = [42, 99]" by (simp add: ev pid_simps p_vlc_def)
  moreover have "map cpu_pct (procs ?s2) = [160 / 3, cpu_pct p_vlc]"
    by (simp add: ev p_chrome_def)
  ultimately show ?thesis using pv z by simp
qed

section \<open>Properties of the resource manager\<close>

text \<open>The chain of \<^verbatim>\<open>continue\<close> statements and the final test select the stop candidates.\<close>

lemma manage_one_eq:
  "manage_one env pri p efs =
     (if stop_candidate pri p
      then (if env (length efs) then p\<lparr>suspended_by_manager := True\<rparr> else p,
            efs @ [Kill (pid p) SIGSTOP])
      else (p, efs))"
  by (auto simp: manage_one_def stop_candidate_def)

text \<open>
  The second loop of \<^verbatim>\<open>manage_resources\<close>: one \<^verbatim>\<open>SIGSTOP\<close> per candidate, in table
  order; the record with index \<open>i\<close> is flagged when it is a candidate and the \<^verbatim>\<open>kill\<close> made
  for it returns 0.
\<close>

lemma manage_loop_eq:
  "manage_loop env pri ps efs = (ps', efs') \<Longrightarrow>
     efs' = efs @ map (\<lambda>p. Kill (pid p) SIGSTOP) (filter (stop_candidate pri) ps)
     \<and> length ps' = length ps
     \<and> (\<forall>i<length ps. ps' ! i =
           (if stop_candidate pri (ps ! i)
               \<and> env (length efs + length (filter (stop_candidate pri) (take i ps)))
            then (ps ! i)\<lparr>suspended_by_manager := True\<rparr> else ps ! i))"
proof (induction ps arbitrary: efs ps' efs')
  case Nil
  then show ?case by simp
next
  case (Cons p ps)
  obtain p1 efs1 where one: "manage_one env pri p efs = (p1, efs1)"
    by (cases "manage_one env pri p efs")
  obtain ps2 efs2 where rest: "manage_loop env pri ps efs1 = (ps2, efs2)"
    by (cases "manage_loop env pri ps efs1")
  from Cons.prems one rest have res: "ps' = p1 # ps2" "efs' = efs2" by simp_all
  note ih = Cons.IH [OF rest]
  from one have p1: "p1 = (if stop_candidate pri p \<and> env (length efs)
                           then p\<lparr>suspended_by_manager := True\<rparr> else p)"
    and e1: "efs1 = (if stop_candidate pri p then efs @ [Kill (pid p) SIGSTOP] else efs)"
    by (auto simp: manage_one_eq split: if_splits)
  have a: "efs' = efs @ map (\<lambda>p. Kill (pid p) SIGSTOP) (filter (stop_candidate pri) (p # ps))"
    using ih e1 res by simp
  have b: "length ps' = length (p # ps)" using ih res by simp
  have c: "ps' ! i =
           (if stop_candidate pri ((p # ps) ! i)
               \<and> env (length efs + length (filter (stop_candidate pri) (take i (p # ps))))
            then ((p # ps) ! i)\<lparr>suspended_by_manager := True\<rparr> else (p # ps) ! i)"
    if i: "i < length (p # ps)" for i
  proof (cases i)
    case 0
    with res p1 show ?thesis by simp
  next
    case (Suc j)
    with i have j: "j < length ps" by simp
    from ih j have "ps2 ! j =
           (if stop_candidate pri (ps ! j)
               \<and> env (length efs1 + length (filter (stop_candidate pri) (take j ps)))
            then (ps ! j)\<lparr>suspended_by_manager := True\<rparr> else ps ! j)"
      by blast
    moreover have "length efs1 + length (filter (stop_candidate pri) (take j ps))
        = length efs + length (filter (stop_candidate pri) (take i (p # ps)))"
      using e1 Suc by simp
    ultimately show ?thesis using res Suc by simp
  qed
  from a b c show ?case by blast
qed

lemma priority_running_iff:
  "priority_running pri ps = (\<exists>p\<in>set ps. is_priority_proc pri (comm p) \<and> running p)"
  by (induction ps) auto

lemma is_priority_proc_iff: "is_priority_proc pri cm = (\<exists>n\<in>set pri. strstr cm n)"
  by (induction pri) auto

text \<open>\<^verbatim>\<open>resume_suspended\<close> in closed form.\<close>

lemma unflag_same: "\<not> suspended_by_manager p \<Longrightarrow> p\<lparr>suspended_by_manager := False\<rparr> = p"
  by (cases p) simp

lemma resume_loop_eq:
  "resume_loop ps efs =
     (map (\<lambda>p. p\<lparr>suspended_by_manager := False\<rparr>) ps,
      efs @ map (\<lambda>p. Kill (pid p) SIGCONT) (filter suspended_by_manager ps))"
  by (induction ps arbitrary: efs) (simp_all add: unflag_same)

lemma resume_suspended_eq:
  "resume_suspended s =
     s\<lparr>procs := map (\<lambda>p. p\<lparr>suspended_by_manager := False\<rparr>) (procs s),
       effects := effects s @ map (\<lambda>p. Kill (pid p) SIGCONT) (filter suspended_by_manager (procs s))\<rparr>"
  by (simp add: resume_suspended_def resume_loop_eq)

text \<open>\<^verbatim>\<open>manage_resources\<close> in terms of its second loop.\<close>

lemma manage_resources_cases:
  "manage_resources env s =
     (if auto_manage_enabled s \<and> priority_running (priority_procs s) (procs s)
      then s\<lparr>procs := fst (manage_loop env (priority_procs s) (procs s) (effects s)),
             effects := snd (manage_loop env (priority_procs s) (procs s) (effects s))\<rparr>
      else s)"
  by (simp add: manage_resources_def split: prod.splits)

lemma manage_loop_facts:
  "snd (manage_loop env pri ps efs)
       = efs @ map (\<lambda>p. Kill (pid p) SIGSTOP) (filter (stop_candidate pri) ps)"
  "length (fst (manage_loop env pri ps efs)) = length ps"
  "i < length ps \<Longrightarrow> fst (manage_loop env pri ps efs) ! i =
           (if stop_candidate pri (ps ! i)
               \<and> env (length efs + length (filter (stop_candidate pri) (take i ps)))
            then (ps ! i)\<lparr>suspended_by_manager := True\<rparr> else ps ! i)"
  using manage_loop_eq [of env pri ps efs "fst (manage_loop env pri ps efs)"
      "snd (manage_loop env pri ps efs)"]
  by simp_all

lemma manage_resources_prev: "prev (manage_resources env s) = prev s"
  by (simp add: manage_resources_cases)

lemma manage_resources_length: "length (procs (manage_resources env s)) = length (procs s)"
  by (simp add: manage_resources_cases manage_loop_facts)

lemma manage_resources_nth:
  assumes "i < length (procs s)"
  shows "procs (manage_resources env s) ! i = procs s ! i
       \<or> (stop_candidate (priority_procs s) (procs s ! i)
          \<and> procs (manage_resources env s) ! i = (procs s ! i)\<lparr>suspended_by_manager := True\<rparr>)"
  using assms by (simp add: manage_resources_cases manage_loop_facts)

lemma manage_resources_protected:
  assumes "i < length (procs s)"
    and "uid (procs s ! i) = 0 \<or> is_system_critical (comm (procs s ! i))"
  shows "procs (manage_resources env s) ! i = procs s ! i"
  using manage_resources_nth [OF assms(1), of env] assms(2)
  by (auto simp: stop_candidate_def)

lemma manage_resources_effects:
  "\<exists>ps. effects (manage_resources env s) = effects s @ map (\<lambda>p. Kill (pid p) SIGSTOP) ps
        \<and> (\<forall>p\<in>set ps. p \<in> set (procs s) \<and> uid p \<noteq> 0 \<and> \<not> is_system_critical (comm p))"
proof (cases "auto_manage_enabled s \<and> priority_running (priority_procs s) (procs s)")
  case True
  then have "effects (manage_resources env s)
      = effects s @ map (\<lambda>p. Kill (pid p) SIGSTOP) (filter (stop_candidate (priority_procs s)) (procs s))"
    by (simp add: manage_resources_cases manage_loop_facts)
  moreover have "\<forall>p\<in>set (filter (stop_candidate (priority_procs s)) (procs s)).
      p \<in> set (procs s) \<and> uid p \<noteq> 0 \<and> \<not> is_system_critical (comm p)"
    by (simp add: stop_candidate_def)
  ultimately show ?thesis by blast
next
  case False
  then have "manage_resources env s = s" by (auto simp: manage_resources_cases)
  then have "effects (manage_resources env s) = effects s @ map (\<lambda>p. Kill (pid p) SIGSTOP) []"
    by simp
  then show ?thesis by (intro exI [of _ "[]"]) simp
qed

text \<open>Every step of the main loop keeps \<open>flags_ok\<close>.\<close>

lemma flags_ok_scan: "flags_ok s \<Longrightarrow> flags_ok (scan_processes tps now d s)"
proof -
  assume ok: "flags_ok s"
  have clear: "\<not> suspended_by_manager p" if "p \<in> set (procs (scan_processes tps now d s))" for p
  proof (cases "find_prev (prev s) (pid p)")
    case None
    with scan_processes_scanned [OF that] show ?thesis by (simp add: scanned_def)
  next
    case (Some q)
    with find_prev_Some ok have "\<not> suspended_by_manager q" by (auto simp: flags_ok_def)
    with scan_processes_scanned [OF that] Some show ?thesis by (simp add: scanned_def)
  qed
  have "prev (scan_processes tps now d s) = procs (scan_processes tps now d s)
      \<or> prev (scan_processes tps now d s) = prev s"
    by (cases d) (simp_all add: scan_processes_def Let_def)
  with clear ok show ?thesis unfolding flags_ok_def by metis
qed

lemma flags_ok_manage: "flags_ok s \<Longrightarrow> flags_ok (manage_resources env s)"
proof -
  assume ok: "flags_ok s"
  have "uid p \<noteq> 0 \<and> \<not> is_system_critical (comm p)"
    if p: "p \<in> set (procs (manage_resources env s))" and f: "suspended_by_manager p" for p
  proof -
    from p obtain i where i: "i < length (procs s)" and pi: "p = procs (manage_resources env s) ! i"
      by (auto simp: in_set_conv_nth manage_resources_length)
    from i have mem: "procs s ! i \<in> set (procs s)" by simp
    from manage_resources_nth [OF i, of env] show ?thesis
    proof
      assume "procs (manage_resources env s) ! i = procs s ! i"
      with pi f mem ok show ?thesis by (auto simp: flags_ok_def)
    next
      assume "stop_candidate (priority_procs s) (procs s ! i)
          \<and> procs (manage_resources env s) ! i = (procs s ! i)\<lparr>suspended_by_manager := True\<rparr>"
      with pi show ?thesis by (simp add: stop_candidate_def)
    qed
  qed
  with ok show ?thesis by (simp add: flags_ok_def manage_resources_prev)
qed

lemma flags_ok_resume: "flags_ok s \<Longrightarrow> flags_ok (resume_suspended s)"
  by (auto simp: flags_ok_def resume_suspended_eq)

lemma flags_ok_update:
  assumes ok: "flags_ok s" and i: "i < length (procs s)"
  shows "flags_ok (s\<lparr>procs := (procs s)[i := (procs s ! i)\<lparr>running := b\<rparr>], effects := e\<rparr>)"
proof -
  let ?p = "procs s ! i"
  from i have mem: "?p \<in> set (procs s)" by simp
  have "uid p \<noteq> 0 \<and> \<not> is_system_critical (comm p)"
    if p: "p \<in> set ((procs s)[i := ?p\<lparr>running := b\<rparr>])" and f: "suspended_by_manager p" for p
  proof -
    from p set_update_subset_insert [of "procs s" i "?p\<lparr>running := b\<rparr>"]
    have "p = ?p\<lparr>running := b\<rparr> \<or> p \<in> set (procs s)" by auto
    then show ?thesis
    proof
      assume e: "p = ?p\<lparr>running := b\<rparr>"
      with f have "suspended_by_manager ?p" by simp
      with ok mem have "uid ?p \<noteq> 0 \<and> \<not> is_system_critical (comm ?p)"
        unfolding flags_ok_def by blast
      with e show ?thesis by simp
    next
      assume "p \<in> set (procs s)"
      with ok f show ?thesis unfolding flags_ok_def by blast
    qed
  qed
  with ok show ?thesis by (simp add: flags_ok_def)
qed

lemma flags_ok_stopcont:
  assumes ok: "flags_ok s" and i: "i < length (procs s)"
  shows "flags_ok (act_stopcont i s)"
  using flags_ok_update [OF ok i] by (simp add: act_stopcont_def Let_def)

lemma flags_ok_step: "flags_ok s \<Longrightarrow> flags_ok (step env ev s)"
proof (cases ev)
  case (Tick_proc tps now d)
  assume "flags_ok s"
  then show ?thesis unfolding Tick_proc
    by (simp add: Let_def flags_ok_scan flags_ok_manage)
next
  case (Scan_only tps now d)
  assume "flags_ok s"
  then show ?thesis unfolding Scan_only by (simp add: flags_ok_scan)
next
  case Key_D
  assume "flags_ok s"
  then show ?thesis unfolding Key_D by (simp add: flags_ok_def)
next
  case Key_T
  assume ok: "flags_ok s"
  then have "flags_ok (s\<lparr>auto_manage_enabled := \<not> auto_manage_enabled s\<rparr>)"
    by (simp add: flags_ok_def)
  from this flags_ok_resume [OF this] show ?thesis unfolding Key_T
    by (cases "auto_manage_enabled s") (simp_all add: key_T_def Let_def)
next
  case Key_R
  assume "flags_ok s"
  then show ?thesis unfolding Key_R by (simp add: flags_ok_resume)
next
  case (Key_A sel)
  assume "flags_ok s"
  then show ?thesis unfolding Key_A by (simp add: key_A_def flags_ok_def)
next
  case (Key_K sel)
  assume "flags_ok s"
  then show ?thesis unfolding Key_K by (simp add: act_kill_def flags_ok_def)
next
  case (Key_S sel)
  assume "flags_ok s"
  then show ?thesis unfolding Key_S by (simp add: flags_ok_stopcont)
next
  case (Draw_procs ps)
  assume ok: "flags_ok s"
  show ?thesis
  proof (cases "mset ps = mset (procs s)")
    case True
    then have "set ps = set (procs s)" by (rule mset_eq_setD)
    with ok True show ?thesis unfolding Draw_procs by (simp add: flags_ok_def)
  next
    case False
    with ok show ?thesis unfolding Draw_procs by simp
  qed
qed

lemma flags_ok_run: "flags_ok s \<Longrightarrow> flags_ok (run env evs s)"
  by (induction evs arbitrary: s) (simp_all add: flags_ok_step)

lemma flags_ok_init: "flags_ok mon_init"
  by (simp add: flags_ok_def mon_init_def)

text \<open>The concrete table, evaluated.\<close>

lemma cand_simps:
  "\<not> stop_candidate [''ffmpeg''] p_ffmpeg"
  "\<not> stop_candidate [''ffmpeg''] p_root"
  "\<not> stop_candidate [''ffmpeg''] p_xorg"
  "stop_candidate [''ffmpeg''] (p_chrome 1050 230 (160 / 3) True False)"
  by (simp_all add: stop_candidate_def p_ffmpeg_def p_root_def p_xorg_def p_chrome_def
      is_system_critical_def critical_def)

lemma m_policy_running: "priority_running (priority_procs m_policy) (procs m_policy)"
  by (simp add: m_policy_def p_ffmpeg_def)

text \<open>
  C5.  With auto-management enabled: a priority process is running exactly when some
  record that is running has a command name containing an entry of the priority list.
  If so, the policy pass sends \<^verbatim>\<open>SIGSTOP\<close> to exactly the records that do not match the
  priority list, are not system-critical, have a non-zero UID, are running, are not yet
  suspended by the manager, and have \<^verbatim>\<open>cpu_pct > 10\<close> or \<^verbatim>\<open>rss_kb > 500000\<close>, in table
  order; a record gets the flag exactly when it is such a candidate and its \<^verbatim>\<open>kill\<close>
  returns 0, and nothing else in the table changes.  If not, the pass changes nothing and
  sends nothing.
\<close>

theorem manage_resources_policy:
  assumes en: "auto_manage_enabled s"
  shows "priority_running (priority_procs s) (procs s)
           = (\<exists>p\<in>set (procs s). (\<exists>n\<in>set (priority_procs s). strstr (comm p) n) \<and> running p)
       \<and> (priority_running (priority_procs s) (procs s) \<longrightarrow>
            effects (manage_resources env s)
              = effects s @ map (\<lambda>p. Kill (pid p) SIGSTOP)
                               (filter (stop_candidate (priority_procs s)) (procs s))
            \<and> length (procs (manage_resources env s)) = length (procs s)
            \<and> (\<forall>i<length (procs s). procs (manage_resources env s) ! i =
                  (if stop_candidate (priority_procs s) (procs s ! i)
                      \<and> env (length (effects s)
                              + length (filter (stop_candidate (priority_procs s)) (take i (procs s))))
                   then (procs s ! i)\<lparr>suspended_by_manager := True\<rparr> else procs s ! i)))
       \<and> (\<not> priority_running (priority_procs s) (procs s) \<longrightarrow> manage_resources env s = s)"
proof -
  have a: "priority_running (priority_procs s) (procs s)
           = (\<exists>p\<in>set (procs s). (\<exists>n\<in>set (priority_procs s). strstr (comm p) n) \<and> running p)"
    by (simp add: priority_running_iff is_priority_proc_iff)
  have b: "effects (manage_resources env s)
              = effects s @ map (\<lambda>p. Kill (pid p) SIGSTOP)
                               (filter (stop_candidate (priority_procs s)) (procs s))
            \<and> length (procs (manage_resources env s)) = length (procs s)
            \<and> (\<forall>i<length (procs s). procs (manage_resources env s) ! i =
                  (if stop_candidate (priority_procs s) (procs s ! i)
                      \<and> env (length (effects s)
                              + length (filter (stop_candidate (priority_procs s)) (take i (procs s))))
                   then (procs s ! i)\<lparr>suspended_by_manager := True\<rparr> else procs s ! i))"
    if "priority_running (priority_procs s) (procs s)"
    using that en by (simp add: manage_resources_cases manage_loop_facts)
  have c: "manage_resources env s = s" if "\<not> priority_running (priority_procs s) (procs s)"
    using that by (simp add: manage_resources_cases)
  from a b c show ?thesis by blast
qed

text \<open>
  A table with a running \<^verbatim>\<open>ffmpeg\<close> (priority), a busy root process, a busy \<^verbatim>\<open>Xorg\<close> and
  \<^verbatim>\<open>chrome\<close>: only \<^verbatim>\<open>chrome\<close> is stopped; it is flagged when \<^verbatim>\<open>kill\<close> succeeds and not
  when it fails; with an empty priority list nothing happens.
\<close>

theorem manage_resources_policy_witness:
  "effects (manage_resources (\<lambda>_. True) m_policy) = [Kill 42 SIGSTOP]
   \<and> map suspended_by_manager (procs (manage_resources (\<lambda>_. True) m_policy))
        = [False, False, False, True]
   \<and> effects (manage_resources (\<lambda>_. False) m_policy) = [Kill 42 SIGSTOP]
   \<and> procs (manage_resources (\<lambda>_. False) m_policy) = procs m_policy
   \<and> manage_resources (\<lambda>_. True) (m_policy\<lparr>priority_procs := []\<rparr>)
        = m_policy\<lparr>priority_procs := []\<rparr>"
proof -
  have en: "auto_manage_enabled m_policy" by (simp add: m_policy_def)
  have en2: "auto_manage_enabled (m_policy\<lparr>priority_procs := []\<rparr>)" by (simp add: m_policy_def)
  have nr: "\<not> priority_running (priority_procs (m_policy\<lparr>priority_procs := []\<rparr>))
                (procs (m_policy\<lparr>priority_procs := []\<rparr>))"
    by (simp add: m_policy_def)
  have pr: "priority_procs m_policy = [''ffmpeg'']"
    and ps: "procs m_policy = [p_ffmpeg, p_root, p_xorg, p_chrome 1050 230 (160 / 3) True False]"
    and ef: "effects m_policy = []"
    by (simp_all add: m_policy_def)
  have len: "length (procs m_policy) = 4" by (simp add: ps)
  note t = manage_resources_policy [OF en, THEN conjunct2, THEN conjunct1, rule_format, OF m_policy_running]
  have e1: "effects (manage_resources env m_policy) = [Kill 42 SIGSTOP]" for env
    using t [of env, THEN conjunct1] by (simp add: pr ps ef cand_simps pid_simps)
  have nth: "procs (manage_resources env m_policy) ! i =
                  (if stop_candidate [''ffmpeg''] (procs m_policy ! i)
                      \<and> env (length (filter (stop_candidate [''ffmpeg'']) (take i (procs m_policy))))
                   then (procs m_policy ! i)\<lparr>suspended_by_manager := True\<rparr> else procs m_policy ! i)"
    if "i < 4" for i env
    using t [of env, THEN conjunct2, THEN conjunct2, rule_format, of i] that
    by (simp add: pr ef len)
  have l4: "length (procs (manage_resources env m_policy)) = 4" for env
    using t [of env, THEN conjunct2, THEN conjunct1] by (simp add: len)
  have ex: "xs = [xs ! 0, xs ! 1, xs ! 2, xs ! 3]" if "length xs = 4" for xs :: "PInfo list"
    using that by (auto simp: list_eq_iff_nth_eq nth_Cons' less_Suc_eq numeral_eq_Suc)
  have "procs (manage_resources (\<lambda>_. True) m_policy)
      = [p_ffmpeg, p_root, p_xorg,
         (p_chrome 1050 230 (160 / 3) True False)\<lparr>suspended_by_manager := True\<rparr>]"
    by (subst ex [OF l4]) (simp add: nth ps cand_simps)
  then have f1: "map suspended_by_manager (procs (manage_resources (\<lambda>_. True) m_policy))
        = [False, False, False, True]"
    by (simp add: p_ffmpeg_def p_root_def p_xorg_def p_chrome_def)
  have f2: "procs (manage_resources (\<lambda>_. False) m_policy) = procs m_policy"
    by (subst ex [OF l4]) (simp add: nth ps cand_simps)
  have u: "manage_resources (\<lambda>_. True) (m_policy\<lparr>priority_procs := []\<rparr>)
        = m_policy\<lparr>priority_procs := []\<rparr>"
    using manage_resources_policy [OF en2, of "\<lambda>_. True"] nr by blast
  from e1 f1 f2 u show ?thesis by simp
qed

text \<open>
  C4.  Pressing \<^verbatim>\<open>T\<close> while auto-management is enabled flips the flag to false and runs
  \<^verbatim>\<open>resume_suspended\<close> in the same step: every record with the flag set gets one
  \<^verbatim>\<open>SIGCONT\<close> (in table order) and has the flag cleared, nothing else in the table
  changes, and afterwards no record of the table has the flag set.
\<close>

theorem disable_resumes_all:
  assumes en: "auto_manage_enabled s"
  shows "step env Key_T s = key_T s
       \<and> \<not> auto_manage_enabled (key_T s)
       \<and> procs (key_T s) = map (\<lambda>p. p\<lparr>suspended_by_manager := False\<rparr>) (procs s)
       \<and> effects (key_T s)
           = effects s @ map (\<lambda>p. Kill (pid p) SIGCONT) (filter suspended_by_manager (procs s))
       \<and> (\<forall>p\<in>set (procs (key_T s)). \<not> suspended_by_manager p)
       \<and> suspended_count (key_T s) = 0"
proof -
  from en have k: "key_T s = resume_suspended (s\<lparr>auto_manage_enabled := False\<rparr>)"
    by (simp add: key_T_def Let_def)
  have a: "\<not> auto_manage_enabled (key_T s)" by (simp add: k resume_suspended_eq)
  have b: "procs (key_T s) = map (\<lambda>p. p\<lparr>suspended_by_manager := False\<rparr>) (procs s)"
    by (simp add: k resume_suspended_eq)
  have c: "effects (key_T s)
           = effects s @ map (\<lambda>p. Kill (pid p) SIGCONT) (filter suspended_by_manager (procs s))"
    by (simp add: k resume_suspended_eq)
  have d: "\<forall>p\<in>set (procs (key_T s)). \<not> suspended_by_manager p"
    unfolding b by simp
  then have e: "suspended_count (key_T s) = 0"
    by (simp add: suspended_count_def filter_empty_conv)
  have f: "step env Key_T s = key_T s" by simp
  from a b c d e f show ?thesis by blast
qed

text \<open>One record is held; after \<^verbatim>\<open>T\<close> none is, and \<^verbatim>\<open>SIGCONT\<close> was sent to PID 42.\<close>

theorem disable_resumes_all_witness:
  "suspended_count m_held = 1
   \<and> \<not> auto_manage_enabled (step (\<lambda>_. True) Key_T m_held)
   \<and> suspended_count (step (\<lambda>_. True) Key_T m_held) = 0
   \<and> effects (step (\<lambda>_. True) Key_T m_held) = [Kill 42 SIGSTOP, Kill 42 SIGCONT]"
proof -
  have en: "auto_manage_enabled m_held" by (simp add: m_held_def)
  have c: "suspended_count m_held = 1"
    by (simp add: suspended_count_def m_held_def p_ffmpeg_def p_root_def p_xorg_def p_chrome_def)
  note t = disable_resumes_all [OF en, of "\<lambda>_. True"]
  from t have s: "step (\<lambda>_. True) Key_T m_held = key_T m_held" by blast
  from t have a: "\<not> auto_manage_enabled (key_T m_held)" by blast
  from t have z: "suspended_count (key_T m_held) = 0" by blast
  from t have "effects (key_T m_held)
      = effects m_held @ map (\<lambda>p. Kill (pid p) SIGCONT) (filter suspended_by_manager (procs m_held))"
    by blast
  then have e: "effects (key_T m_held) = [Kill 42 SIGSTOP, Kill 42 SIGCONT]"
    by (simp add: m_held_def p_ffmpeg_def p_root_def p_xorg_def p_chrome_def)
  from c a z e show ?thesis unfolding s by simp
qed

text \<open>
  C3.  A policy pass leaves the record of every process with UID 0 or with a
  system-critical command name exactly as it was, whatever its \<^verbatim>\<open>cpu_pct\<close> and \<^verbatim>\<open>rss_kb\<close>,
  and every \<^verbatim>\<open>SIGSTOP\<close> it sends is for a record that is neither; and in every state the
  main loop can reach from the start, no record with UID 0 or a system-critical name has
  the flag set.
\<close>

theorem protected_never_marked:
  "length (procs (manage_resources env s)) = length (procs s)
   \<and> (\<forall>i<length (procs s).
         uid (procs s ! i) = 0 \<or> is_system_critical (comm (procs s ! i))
         \<longrightarrow> procs (manage_resources env s) ! i = procs s ! i)
   \<and> (\<exists>ps. effects (manage_resources env s) = effects s @ map (\<lambda>p. Kill (pid p) SIGSTOP) ps
         \<and> (\<forall>p\<in>set ps. p \<in> set (procs s) \<and> uid p \<noteq> 0 \<and> \<not> is_system_critical (comm p)))
   \<and> (\<forall>p\<in>set (procs (run env evs mon_init)).
         suspended_by_manager p \<longrightarrow> uid p \<noteq> 0 \<and> \<not> is_system_critical (comm p))"
proof -
  have "flags_ok (run env evs mon_init)" by (rule flags_ok_run [OF flags_ok_init])
  then have d: "\<forall>p\<in>set (procs (run env evs mon_init)).
         suspended_by_manager p \<longrightarrow> uid p \<noteq> 0 \<and> \<not> is_system_critical (comm p)"
    by (simp add: flags_ok_def)
  from manage_resources_length [of env s] manage_resources_protected [of _ s env]
    manage_resources_effects [of env s] d
  show ?thesis by blast
qed

text \<open>The root process (90 percent) and \<^verbatim>\<open>Xorg\<close> (50 percent) stay as they were.\<close>

theorem protected_never_marked_witness:
  "uid (procs m_policy ! 1) = 0 \<and> cpu_pct (procs m_policy ! 1) = 90
   \<and> procs (manage_resources (\<lambda>_. True) m_policy) ! 1 = procs m_policy ! 1
   \<and> is_system_critical (comm (procs m_policy ! 2)) \<and> cpu_pct (procs m_policy ! 2) = 50
   \<and> procs (manage_resources (\<lambda>_. True) m_policy) ! 2 = procs m_policy ! 2
   \<and> \<not> suspended_by_manager (procs (manage_resources (\<lambda>_. True) m_policy) ! 1)
   \<and> \<not> suspended_by_manager (procs (manage_resources (\<lambda>_. True) m_policy) ! 2)"
proof -
  note t = protected_never_marked [of "\<lambda>_. True" m_policy "[]", THEN conjunct2, THEN conjunct1, rule_format]
  have u: "uid (procs m_policy ! 1) = 0" "cpu_pct (procs m_policy ! 1) = 90"
    "\<not> suspended_by_manager (procs m_policy ! 1)"
    by (simp_all add: m_policy_def p_root_def)
  have x: "is_system_critical (comm (procs m_policy ! 2))" "cpu_pct (procs m_policy ! 2) = 50"
    "\<not> suspended_by_manager (procs m_policy ! 2)"
    by (simp_all add: m_policy_def p_xorg_def is_system_critical_def critical_def)
  have l: "1 < length (procs m_policy)" "2 < length (procs m_policy)"
    by (simp_all add: m_policy_def)
  have a: "procs (manage_resources (\<lambda>_. True) m_policy) ! 1 = procs m_policy ! 1"
    by (rule t [OF l(1)]) (rule disjI1, rule u(1))
  have b: "procs (manage_resources (\<lambda>_. True) m_policy) ! 2 = procs m_policy ! 2"
    by (rule t [OF l(2)]) (rule disjI2, rule x(1))
  from u x a b show ?thesis by simp
qed

section \<open>Flags across scans, and the kill action\<close>

text \<open>The concrete run, step by step.\<close>

lemma cx_key_A:
  "step env (Key_A 0) scan1 = scan1\<lparr>priority_procs := [''ffmpeg'']\<rparr>"
  by (simp add: key_A_def scan1_eq MAX_PRIORITY_PROCS_def p_ffmpeg_def)

lemma cx_key_T:
  "step env Key_T (scan1\<lparr>priority_procs := [''ffmpeg'']\<rparr>)
     = scan1\<lparr>priority_procs := [''ffmpeg''], auto_manage_enabled := True\<rparr>"
  by (simp add: key_T_def scan1_eq Let_def)

lemma cx_scan2:
  "scan_processes 100 6500 (Some [e_ffmpeg, e_chrome 1050 230 True])
      (scan1\<lparr>priority_procs := [''ffmpeg''], auto_manage_enabled := True\<rparr>)
   = \<lparr>procs = [p_ffmpeg, p_chrome 1050 230 (160 / 3) True False],
      prev = [p_ffmpeg, p_chrome 1050 230 (160 / 3) True False],
      prev_time_ms = 6500, priority_procs = [''ffmpeg''], auto_manage_enabled = True,
      effects = []\<rparr>"
  by (simp add: scan1_eq scan_processes_def Let_def scan_entry_ffmpeg scan_entry_chrome
      MAX_PROCS_def pid_simps)
     (simp add: p_ffmpeg_def p_chrome_def proc_cpu_pct_def)

lemma cx_held_eq:
  "cx_held = \<lparr>procs = [p_ffmpeg, p_chrome 1050 230 (160 / 3) True True],
      prev = [p_ffmpeg, p_chrome 1050 230 (160 / 3) True False],
      prev_time_ms = 6500, priority_procs = [''ffmpeg''], auto_manage_enabled = True,
      effects = [Kill 42 SIGSTOP]\<rparr>"
proof -
  have 1: "step (\<lambda>_. True) (Scan_only 100 5000 (Some [e_ffmpeg, e_chrome 1000 200 True])) mon_init
      = scan1"
    by (simp add: scan1_def)
  have "cx_held = step (\<lambda>_. True) (Tick_proc 100 6500 (Some [e_ffmpeg, e_chrome 1050 230 True]))
      (scan1\<lparr>priority_procs := [''ffmpeg''], auto_manage_enabled := True\<rparr>)"
    unfolding cx_held_def cx_evs_def run.simps 1 cx_key_A cx_key_T ..
  also have "\<dots> = manage_resources (\<lambda>_. True)
      \<lparr>procs = [p_ffmpeg, p_chrome 1050 230 (160 / 3) True False],
      prev = [p_ffmpeg, p_chrome 1050 230 (160 / 3) True False],
      prev_time_ms = 6500, priority_procs = [''ffmpeg''], auto_manage_enabled = True,
      effects = []\<rparr>"
    unfolding step.simps cx_scan2 by (simp add: Let_def)
  also have "\<dots> = \<lparr>procs = [p_ffmpeg, p_chrome 1050 230 (160 / 3) True True],
      prev = [p_ffmpeg, p_chrome 1050 230 (160 / 3) True False],
      prev_time_ms = 6500, priority_procs = [''ffmpeg''], auto_manage_enabled = True,
      effects = [Kill 42 SIGSTOP]\<rparr>"
    by (simp add: manage_resources_def manage_one_eq cand_simps pid_simps)
       (simp add: p_ffmpeg_def p_chrome_def)
  finally show ?thesis .
qed

lemma cx_resumed_eq:
  "cx_resumed = \<lparr>procs = [p_ffmpeg, p_chrome 1050 230 (160 / 3) True False],
      prev = [p_ffmpeg, p_chrome 1050 230 (160 / 3) True False],
      prev_time_ms = 6500, priority_procs = [''ffmpeg''], auto_manage_enabled = False,
      effects = [Kill 42 SIGSTOP, Kill 42 SIGCONT]\<rparr>"
  unfolding cx_resumed_def cx_held_eq
  by (simp add: key_T_def Let_def resume_suspended_eq p_ffmpeg_def p_chrome_def)

lemma cx_next_eq:
  "cx_next = \<lparr>procs = [p_ffmpeg, p_chrome 1050 230 0 True False],
      prev = [p_ffmpeg, p_chrome 1050 230 0 True False],
      prev_time_ms = 8000, priority_procs = [''ffmpeg''], auto_manage_enabled = False,
      effects = [Kill 42 SIGSTOP, Kill 42 SIGCONT]\<rparr>"
  unfolding cx_next_def cx_resumed_eq
  by (simp add: scan_processes_def Let_def scan_entry_ffmpeg scan_entry_chrome
      MAX_PROCS_def pid_simps)
     (simp add: p_ffmpeg_def p_chrome_def proc_cpu_pct_def)

text \<open>
  C10 as stated fails on this run of the program: a scan; \<^verbatim>\<open>A\<close> makes \<^verbatim>\<open>ffmpeg\<close> a priority process; \<^verbatim>\<open>T\<close> enables
  auto-management; the next timer tick scans and the policy stops PID 42 and flags it;
  \<^verbatim>\<open>T\<close> disables auto-management, which clears the flag and sends \<^verbatim>\<open>SIGCONT\<close>; the next
  timer tick scans again, with PID 42 present as in the scan before.  After that scan the
  flag of PID 42 is clear and no record is counted as suspended.
\<close>

theorem resume_not_undone_counterexample:
  "map pid (procs cx_held) = [7, 42]
   \<and> map suspended_by_manager (procs cx_held) = [False, True]
   \<and> map suspended_by_manager (procs cx_resumed) = [False, False]
   \<and> effects cx_resumed = [Kill 42 SIGSTOP, Kill 42 SIGCONT]
   \<and> map pid (procs cx_next) = [7, 42]
   \<and> map suspended_by_manager (procs cx_next) = [False, False]
   \<and> suspended_count cx_next = 0"
  by (simp add: cx_held_eq cx_resumed_eq cx_next_eq suspended_count_def p_ffmpeg_def p_chrome_def)

text \<open>A scan reads the snapshot and its time stamp, never the current table.\<close>

lemma scan_processes_prev_only:
  assumes "prev s' = prev s" and "prev_time_ms s' = prev_time_ms s"
  shows "procs (scan_processes tps now d s') = procs (scan_processes tps now d s)
       \<and> prev (scan_processes tps now d s') = prev (scan_processes tps now d s)"
  using assms by (cases d) (simp_all add: scan_processes_def Let_def)

text \<open>Only a scan writes the snapshot.\<close>

lemma step_keeps_prev:
  "(case ev of Tick_proc tps now d \<Rightarrow> True | Scan_only tps now d \<Rightarrow> True
    | _ \<Rightarrow> prev (step env ev s) = prev s)"
  by (cases ev)
     (simp_all add: key_T_def key_A_def act_kill_def act_stopcont_def Let_def resume_suspended_eq)

text \<open>
  C10, as amended.  For every record of a scan, the flag is the flag of the first record
  with the same PID in the previous scan's snapshot, and clear when the snapshot has no
  such record; the snapshot is written by scans only (no other step of the main loop
  changes it, neither the policy pass nor a resume-all pass); hence the table, and the
  number of flagged records, after the next scan are the same with and without a
  resume-all pass in between: a record is flagged after that scan exactly when its
  snapshot record is.
\<close>

theorem snapshot_flag_copy:
  "(\<forall>p\<in>set (procs (scan_processes tps now d s)).
      suspended_by_manager p
        = (case find_prev (prev s) (pid p) of None \<Rightarrow> False
           | Some q \<Rightarrow> suspended_by_manager q))
   \<and> (case ev of Tick_proc t n e \<Rightarrow> True | Scan_only t n e \<Rightarrow> True
       | _ \<Rightarrow> prev (step env ev s) = prev s)
   \<and> prev (manage_resources env s) = prev s
   \<and> prev (resume_suspended s) = prev s
   \<and> procs (scan_processes tps now d (resume_suspended s)) = procs (scan_processes tps now d s)
   \<and> suspended_count (scan_processes tps now d (resume_suspended s))
       = suspended_count (scan_processes tps now d s)"
proof -
  have a: "suspended_by_manager p
        = (case find_prev (prev s) (pid p) of None \<Rightarrow> False | Some q \<Rightarrow> suspended_by_manager q)"
    if "p \<in> set (procs (scan_processes tps now d s))" for p
    using scan_processes_scanned [OF that] by (simp add: scanned_def split: option.splits)
  have r: "prev (resume_suspended s) = prev s" "prev_time_ms (resume_suspended s) = prev_time_ms s"
    by (simp_all add: resume_suspended_eq)
  note e = scan_processes_prev_only [OF r, of tps now d]
  from e have c: "suspended_count (scan_processes tps now d (resume_suspended s))
       = suspended_count (scan_processes tps now d s)"
    by (simp add: suspended_count_def)
  from a step_keeps_prev [where ev = ev and env = env and s = s] manage_resources_prev [of env s] r(1) e c
  show ?thesis by blast
qed

text \<open>
  A snapshot that holds a set flag for PID 42: the scan gives PID 42 the flag, and the
  same table results after a resume-all pass.
\<close>

theorem snapshot_flag_copy_witness:
  "map suspended_by_manager (prev m_flagged) = [False, False, False, True]
   \<and> map suspended_by_manager
        (procs (scan_processes 100 9500 (Some [e_ffmpeg, e_chrome 1050 230 False]) m_flagged))
      = [False, True]
   \<and> procs (scan_processes 100 9500 (Some [e_ffmpeg, e_chrome 1050 230 False])
              (resume_suspended m_flagged))
      = procs (scan_processes 100 9500 (Some [e_ffmpeg, e_chrome 1050 230 False]) m_flagged)"
proof -
  let ?d = "Some [e_ffmpeg, e_chrome 1050 230 False]"
  note t = snapshot_flag_copy [where tps = 100 and now = 9500 and d = ?d and s = m_flagged
      and ev = Key_R and env = "\<lambda>_. True"]
  have pv: "prev m_flagged = [p_ffmpeg, p_root, p_xorg, p_chrome 1050 230 0 False True]"
    by (simp add: m_flagged_def m_held_def)
  have ps: "procs (scan_processes 100 9500 ?d m_flagged)
      = [p_ffmpeg\<lparr>cpu_pct := proc_cpu_pct 100 1500 p_ffmpeg 100 10,
                  suspended_by_manager := suspended_by_manager p_ffmpeg\<rparr>,
         (p_chrome 1050 230 0 False False)\<lparr>cpu_pct := proc_cpu_pct 100 1500
                  (p_chrome 1050 230 0 False True) 1050 230,
            suspended_by_manager := suspended_by_manager (p_chrome 1050 230 0 False True)\<rparr>]"
    by (simp add: m_flagged_def m_held_def scan_processes_def Let_def scan_entry_ffmpeg
        scan_entry_chrome MAX_PROCS_def pid_simps)
       (simp add: p_root_def p_xorg_def)
  have m2: "(p_chrome 1050 230 0 False False)\<lparr>cpu_pct := proc_cpu_pct 100 1500
                  (p_chrome 1050 230 0 False True) 1050 230,
            suspended_by_manager := suspended_by_manager (p_chrome 1050 230 0 False True)\<rparr>
          \<in> set (procs (scan_processes 100 9500 ?d m_flagged))"
    by (simp add: ps)
  have fp: "find_prev (prev m_flagged) 42 = Some (p_chrome 1050 230 0 False True)"
    by (simp add: pv pid_simps p_root_def p_xorg_def)
  from t m2 have "suspended_by_manager ((p_chrome 1050 230 0 False False)\<lparr>cpu_pct := proc_cpu_pct 100 1500
                  (p_chrome 1050 230 0 False True) 1050 230,
            suspended_by_manager := suspended_by_manager (p_chrome 1050 230 0 False True)\<rparr>)
      = (case find_prev (prev m_flagged) (pid ((p_chrome 1050 230 0 False False)\<lparr>cpu_pct := proc_cpu_pct 100 1500
                  (p_chrome 1050 230 0 False True) 1050 230,
            suspended_by_manager := suspended_by_manager (p_chrome 1050 230 0 False True)\<rparr>)) of None \<Rightarrow> False
           | Some q \<Rightarrow> suspended_by_manager q)"
    by blast
  then have f: "suspended_by_manager ((p_chrome 1050 230 0 False False)\<lparr>cpu_pct := proc_cpu_pct 100 1500
                  (p_chrome 1050 230 0 False True) 1050 230,
            suspended_by_manager := suspended_by_manager (p_chrome 1050 230 0 False True)\<rparr>)"
    by (simp add: pid_simps fp) (simp add: p_chrome_def)
  have a: "map suspended_by_manager (prev m_flagged) = [False, False, False, True]"
    by (simp add: pv p_ffmpeg_def p_root_def p_xorg_def p_chrome_def)
  have b: "map suspended_by_manager (procs (scan_processes 100 9500 ?d m_flagged)) = [False, True]"
    unfolding ps using f by (simp add: p_ffmpeg_def)
  from t have c: "procs (scan_processes 100 9500 ?d (resume_suspended m_flagged))
      = procs (scan_processes 100 9500 ?d m_flagged)"
    by blast
  from a b c show ?thesis by blast
qed

text \<open>
  Why the run above ends as it does: the snapshot is a copy of the table made at the end of
  the scan, before the policy pass sets a flag, so from the start on no snapshot record
  ever holds a set flag and every scan yields a table without flagged records.
\<close>

lemma snapshot_never_flagged:
  "(\<forall>p\<in>set (prev (run env evs mon_init)). \<not> suspended_by_manager p)
   \<and> suspended_count (scan_processes tps now d (run env evs mon_init)) = 0"
proof -
  have ok: "flags_ok (run env evs mon_init)" by (rule flags_ok_run [OF flags_ok_init])
  then have a: "\<forall>p\<in>set (prev (run env evs mon_init)). \<not> suspended_by_manager p"
    by (simp add: flags_ok_def)
  have "\<not> suspended_by_manager p"
    if "p \<in> set (procs (scan_processes tps now d (run env evs mon_init)))" for p
  proof (cases "find_prev (prev (run env evs mon_init)) (pid p)")
    case None
    with scan_processes_scanned [OF that] show ?thesis by (simp add: scanned_def)
  next
    case (Some q)
    with find_prev_Some a have "\<not> suspended_by_manager q" by blast
    with scan_processes_scanned [OF that] Some show ?thesis by (simp add: scanned_def)
  qed
  then have "suspended_count (scan_processes tps now d (run env evs mon_init)) = 0"
    by (simp add: suspended_count_def filter_empty_conv)
  with a show ?thesis by blast
qed

text \<open>
  C9, as amended.  \<^verbatim>\<open>act_kill\<close> sends \<^verbatim>\<open>SIGTERM\<close>; if that call returns 0 it returns at once;
  otherwise it waits 200000 microseconds and sends \<^verbatim>\<open>SIGKILL\<close>.  Nothing else changes.
\<close>

theorem act_kill_effects:
  "effects (act_kill env p s)
     = effects s @ (if env (length (effects s)) then [Kill p SIGTERM]
                    else [Kill p SIGTERM, Usleep 200000, Kill p SIGKILL])
   \<and> act_kill env p s = s\<lparr>effects := effects (act_kill env p s)\<rparr>"
  by (simp add: act_kill_def)

text \<open>Both branches at PID 4242.\<close>

theorem act_kill_effects_witness:
  "effects (act_kill (\<lambda>_. True) 4242 mon_init) = [Kill 4242 SIGTERM]
   \<and> effects (act_kill (\<lambda>_. False) 4242 mon_init)
       = [Kill 4242 SIGTERM, Usleep 200000, Kill 4242 SIGKILL]"
  using act_kill_effects [of "\<lambda>_. True" 4242 mon_init] act_kill_effects [of "\<lambda>_. False" 4242 mon_init]
  by (simp add: mon_init_def)

text \<open>
  C9 as stated fails: when \<^verbatim>\<open>SIGTERM\<close> is sent successfully no \<^verbatim>\<open>SIGKILL\<close> follows; when
  the send fails, the delay and the \<^verbatim>\<open>SIGKILL\<close> follow.
\<close>

theorem act_kill_counterexample:
  "Kill 4242 SIGKILL \<notin> set (effects (act_kill (\<lambda>_. True) 4242 mon_init))
   \<and> Kill 4242 SIGKILL \<in> set (effects (act_kill (\<lambda>_. False) 4242 mon_init))
   \<and> Usleep 200000 \<in> set (effects (act_kill (\<lambda>_. False) 4242 mon_init))"
  by (simp add: act_kill_def mon_init_def)

end
